theory Spec2Isabelle
  imports Main "HOL-Library.Word"
begin

section \<open>Blob garbage collection job (src/blob\_gc\_job.cc)\<close>

text \<open>
  A shallow embedding of \<^verbatim>\<open>BlobGCJob\<close> and of its write callback. The job is
  sequential code around calls into the LSM engine, the blob file manager, the blob file
  builders and the merged iterator. Those collaborators are not part of the file: each
  of their answers is a field of the environment record \<open>Env\<close> declared below, and each
  of their effects on persistent state is an event appended to the job's trace.
  Logging and the statistics registry are left out.
\<close>

subsection \<open>Status, blob index, lookups\<close>

type_synonym u64 = "64 word"

text \<open>\<^verbatim>\<open>rocksdb::Status\<close>: a code and, for the codes the job builds itself, a message.\<close>

datatype Status =
    OK
  | NotFound string
  | Busy string
  | Aborted string
  | ShutdownInProgress
  | IOError string
  | Corruption string

definition ok :: "Status \<Rightarrow> bool" where
  "ok s = (s = OK)"

fun IsNotFound :: "Status \<Rightarrow> bool" where
  "IsNotFound (NotFound m) = True"
| "IsNotFound s = False"

fun IsBusy :: "Status \<Rightarrow> bool" where
  "IsBusy (Busy m) = True"
| "IsBusy s = False"

record BlobHandle =
  offset :: u64
  size' :: u64
  order' :: u64

record BlobIndex =
  file_number :: u64
  blob_handle :: BlobHandle

text \<open>The default constructed \<^verbatim>\<open>BlobIndex()\<close>: every field zero.\<close>

definition BlobIndex0 :: BlobIndex where
  "BlobIndex0 = \<lparr>file_number = 0, blob_handle = \<lparr>offset = 0, size' = 0, order' = 0\<rparr>\<rparr>"

text \<open>
  Modelled from the spec: \<^verbatim>\<open>BlobIndex::operator==\<close> (blob\_format.h is not part of the
  sources). Two blob indices compare equal iff all four fields match.
\<close>

definition blob_index_eq :: "BlobIndex \<Rightarrow> BlobIndex \<Rightarrow> bool" where
  "blob_index_eq a b =
     (file_number a = file_number b \<and>
      offset (blob_handle a) = offset (blob_handle b) \<and>
      size' (blob_handle a) = size' (blob_handle b) \<and>
      order' (blob_handle a) = order' (blob_handle b))"

text \<open>
  What one call of \<^verbatim>\<open>DBImpl::GetImpl\<close> hands back through \<^verbatim>\<open>GetImplOptions\<close>: the
  status, the pinned value, the \<^verbatim>\<open>is_blob_index\<close> flag and (with
  \<^verbatim>\<open>return_level\<close>) the level.
\<close>

record GetResult =
  g_status :: Status
  g_value :: string
  g_is_blob_index :: bool
  g_level :: int

text \<open>A view of the LSM: the answer of \<^verbatim>\<open>GetImpl\<close> for every user key.\<close>

type_synonym DB = "string \<Rightarrow> GetResult"

text \<open>\<^verbatim>\<open>BlobIndex::DecodeFrom\<close>: the status and the decoded index.\<close>

type_synonym Decoder = "string \<Rightarrow> Status \<times> BlobIndex"

subsection \<open>The write callback\<close>

record GarbageCollectionWriteCallback =
  cb_key :: string
  cb_blob_index :: BlobIndex
  cb_new_blob_index :: BlobIndex
  cb_read_bytes :: u64

definition blob_record_size :: "GarbageCollectionWriteCallback \<Rightarrow> u64" where
  "blob_record_size cb = size' (blob_handle (cb_blob_index cb))"

text \<open>
  \<^verbatim>\<open>GarbageCollectionWriteCallback::Callback\<close> (lines 29--63). The result is the
  returned status and the callback object with \<^verbatim>\<open>read_bytes_\<close> updated.
\<close>

definition Callback ::
  "Decoder \<Rightarrow> DB \<Rightarrow> GarbageCollectionWriteCallback \<Rightarrow> Status \<times> GarbageCollectionWriteCallback"
where
  "Callback DecodeFrom db cb =
     (let g = db (cb_key cb);
          s = g_status g
      in if \<not> ok s \<and> \<not> IsNotFound s then (s, cb)
         else
           let cb1 = cb\<lparr>cb_read_bytes :=
                         of_nat (length (cb_key cb)) + of_nat (length (g_value g))\<rparr>;
               s1 = (if IsNotFound s then Busy ''key deleted''
                     else if \<not> g_is_blob_index g then Busy ''key overwritten with other value''
                     else s)
           in if ok s1 then
                (case DecodeFrom (g_value g) of
                   (ds, other_blob_index) \<Rightarrow>
                     if \<not> ok ds then (ds, cb1)
                     else if \<not> blob_index_eq (cb_blob_index cb) other_blob_index
                       then (Busy ''key overwritten with other blob'', cb1)
                     else (ds, cb1))
              else (s1, cb1))"

subsection \<open>Abnormal termination\<close>

text \<open>
  The ways the C++ can stop without returning a status: a failed \<^verbatim>\<open>assert\<close> (only in a
  build that keeps assertions, see \<open>assertions\<close> below), a dereferenced null
  \<^verbatim>\<open>unique_ptr\<close>, and an \<^verbatim>\<open>autovector\<close> subscript outside the vector. A function that
  can stop this way returns \<open>Crash + 'a\<close>.
\<close>

datatype Crash =
    AssertFailed string
  | NullDeref string
  | OutOfBounds int

subsection \<open>Options, file metadata, builders\<close>

datatype TitanBlobRunMode = kNormal | kReadOnly | kFallback

record TitanCFOptions =
  blob_run_mode :: TitanBlobRunMode
  blob_file_target_size :: u64
  rewrite_shadow :: bool
  shadow_target_size :: u64

datatype FileState = kPendingGCOutput | kNormalState | kObsolete

record BlobFileMeta =
  m_file_number :: u64
  m_file_size :: u64
  m_live_data_size :: u64
  m_live_bitset :: "bool list"
  m_state :: FileState

text \<open>
  Modelled from the spec: \<^verbatim>\<open>BlobFileMeta::IsLiveData\<close>, \<^verbatim>\<open>SetLiveDataBitset\<close>,
  \<^verbatim>\<open>UpdateLiveDataSize\<close>, \<^verbatim>\<open>InitLiveDataBitset\<close> and \<^verbatim>\<open>is_obsolete\<close> (blob\_format.h and
  blob\_format.cc are not part of the sources). One bit per record by order, bit set
  means live; an order outside the bitset is treated as live; setting a bit outside
  the bitset changes nothing; the live size is a 64-bit counter.
\<close>

definition IsLiveData :: "BlobFileMeta \<Rightarrow> u64 \<Rightarrow> bool" where
  "IsLiveData f ord =
     (if unat ord < length (m_live_bitset f) then m_live_bitset f ! unat ord else True)"

definition SetLiveDataBitset :: "u64 \<Rightarrow> bool \<Rightarrow> BlobFileMeta \<Rightarrow> BlobFileMeta" where
  "SetLiveDataBitset ord b f = f\<lparr>m_live_bitset := (m_live_bitset f)[unat ord := b]\<rparr>"

definition UpdateLiveDataSize :: "u64 \<Rightarrow> BlobFileMeta \<Rightarrow> BlobFileMeta" where
  "UpdateLiveDataSize delta f = f\<lparr>m_live_data_size := m_live_data_size f + delta\<rparr>"

definition InitLiveDataBitset :: "u64 \<Rightarrow> BlobFileMeta \<Rightarrow> BlobFileMeta" where
  "InitLiveDataBitset n f = f\<lparr>m_live_bitset := replicate (unat n) True\<rparr>"

definition is_obsolete :: "BlobFileMeta \<Rightarrow> bool" where
  "is_obsolete f = (m_state f = kObsolete)"

record BlobRecordContext =
  ctx_key :: string
  ctx_original_blob_index :: BlobIndex
  ctx_new_blob_index :: BlobIndex

text \<open>
  A \<^verbatim>\<open>BlobFileBuilder\<close> is represented by the output file it writes and the calls of
  \<^verbatim>\<open>Add\<close> it has received (user key, value, context); what it answers is the
  environment's. A shadow \<^verbatim>\<open>TableBuilder\<close> likewise: its level and the entries added.
\<close>

record BlobFileBuilder =
  bld_file :: u64
  bld_added :: "(string \<times> string \<times> BlobRecordContext) list"

record TableBuilder =
  tb_level :: int
  tb_entries :: "(string \<times> string) list"

datatype BatchOp = Put string string | PutBlobIndex string string

type_synonym WriteBatch = "BatchOp list"

subsection \<open>Effects on the world, metrics, environment\<close>

text \<open>
  The calls that read or change state outside the job, in the order the job makes them.
\<close>

datatype Event =
    EvGetImpl string
  | EvNewFile u64
  | EvBlobAdd u64 string
  | EvOpenShadow int
  | EvShadowFinish int
  | EvMutexLock
  | EvMutexUnlock
  | EvBuilderFinish u64
  | EvBatchFinishFiles "u64 list"
  | EvBatchDeleteFiles "u64 list"
  | EvWrite WriteBatch
  | EvSetLiveDataBitset u64 u64
  | EvUpdateLiveDataSize u64 u64
  | EvComputeGCScore
  | EvFlushWAL
  | EvInstallShadows
  | EvLogAndApply "u64 list" u64

record Metrics =
  gc_bytes_read_check :: u64
  gc_bytes_read_blob :: u64
  gc_bytes_read_callback :: u64
  gc_bytes_written_lsm :: u64
  gc_bytes_written_blob :: u64
  gc_num_keys_overwritten_check :: u64
  gc_num_keys_overwritten_callback :: u64
  gc_bytes_overwritten_check :: u64
  gc_bytes_overwritten_callback :: u64
  gc_num_keys_relocated :: u64
  gc_bytes_relocated :: u64
  gc_num_keys_fallback :: u64
  gc_bytes_fallback :: u64
  gc_num_new_files :: u64
  gc_num_files :: u64

text \<open>
  The collaborators' answers. A call that can answer differently as time passes takes
  the number of the loop iteration it is made in: the scan loop's for the first group,
  the rewrite loop's for the second.
  \<open>assertions\<close> says whether the build keeps \<^verbatim>\<open>assert\<close> (no \<^verbatim>\<open>NDEBUG\<close>).
\<close>

record Env =
  assertions :: bool
  DecodeFrom :: Decoder
  EncodeTo :: "BlobIndex \<Rightarrow> string"
  InternalKey_Encode :: "string \<Rightarrow> string"
  ParseInternalKey :: "string \<Rightarrow> Status \<times> string"
  WriteBatch_Put :: "string \<Rightarrow> string \<Rightarrow> Status"
  WriteBatch_PutBlobIndex :: "string \<Rightarrow> string \<Rightarrow> Status"
  WriteBatch_GetDataSize :: "WriteBatch \<Rightarrow> u64"
  BlobRecord_size :: "string \<Rightarrow> string \<Rightarrow> u64"
  NewBlobFileReader :: "u64 \<Rightarrow> Status"
  iter_status :: Status
  IsShutingDown_scan :: "nat \<Rightarrow> bool"
  GetImpl_scan :: "nat \<Rightarrow> DB"
  NewFile :: "nat \<Rightarrow> Status \<times> u64"
  Builder_Add :: "BlobFileBuilder \<Rightarrow> string \<Rightarrow> string \<Rightarrow> BlobRecordContext \<Rightarrow> BlobRecordContext list"
  Builder_status :: "BlobFileBuilder \<Rightarrow> Status"
  Builder_Finish :: "BlobFileBuilder \<Rightarrow> Status \<times> BlobRecordContext list"
  Builder_meta :: "BlobFileBuilder \<Rightarrow> u64 \<times> u64 \<times> u64"
  OpenShadow :: "nat \<Rightarrow> int \<Rightarrow> Status"
  Shadow_EstimatedFileSize :: "TableBuilder \<Rightarrow> u64"
  Shadow_Finish :: "TableBuilder \<Rightarrow> Status"
  BatchFinishFiles :: "u64 list \<Rightarrow> Status"
  IsDropped_rewrite :: "nat \<Rightarrow> bool"
  IsShutingDown_rewrite :: "nat \<Rightarrow> bool"
  GetImpl_commit :: "nat \<Rightarrow> DB"
  Write_status :: "nat \<Rightarrow> Status"
  GetBlobStorage_found :: bool
  FlushWAL :: Status
  IsDropped_final :: bool
  GetLatestSequenceNumber :: u64
  LogAndApply :: "u64 list \<Rightarrow> Status"

text \<open>The members of \<^verbatim>\<open>BlobGCJob\<close> that the job changes, and the blob storage it shares.\<close>

record Job =
  metrics :: Metrics
  rewrite_batches :: "(WriteBatch \<times> GarbageCollectionWriteCallback) list"
  blob_file_builders :: "(u64 option \<times> BlobFileBuilder option) list"
  outputs :: "u64 list"
  blob_storage :: "u64 \<Rightarrow> BlobFileMeta option"
  trace :: "Event list"

text \<open>The local variables of \<^verbatim>\<open>DoRunGC\<close> that live across iterations of the scan loop.\<close>

record Locals =
  loop_s :: Status
  blob_file_handle :: "u64 option"
  blob_file_builder :: "BlobFileBuilder option"
  level_shadow_builders :: "TableBuilder option list"
  level_shadow_files :: "int option list"
  file_size :: u64
  shadow_size :: u64
  discardable_count :: u64
  total_count :: u64
  valid_count :: u64
  last_key :: string
  last_key_is_fresh :: bool

record GcTuple =
  t_key :: string
  t_value :: string
  t_blob_index :: BlobIndex

datatype Ctl = Continue | Break

subsection \<open>Small state updates\<close>

definition emit :: "Event list \<Rightarrow> Job \<Rightarrow> Job" where
  "emit es j = j\<lparr>trace := trace j @ es\<rparr>"

definition upd_metrics :: "(Metrics \<Rightarrow> Metrics) \<Rightarrow> Job \<Rightarrow> Job" where
  "upd_metrics f j = j\<lparr>metrics := f (metrics j)\<rparr>"

subsection \<open>Classification of a scanned record\<close>

definition find_input :: "BlobFileMeta list \<Rightarrow> u64 \<Rightarrow> BlobFileMeta option" where
  "find_input inputs n = find (\<lambda>f. m_file_number f = n) inputs"

text \<open>
  \<^verbatim>\<open>DiscardEntryWithBitset\<close> (lines 578--601). The second argument is the caller's
  \<^verbatim>\<open>discardable\<close>, which the NotFound branch leaves as it was.
\<close>

definition DiscardEntryWithBitset ::
  "BlobFileMeta list \<Rightarrow> BlobIndex \<Rightarrow> bool \<Rightarrow> Status \<times> bool"
where
  "DiscardEntryWithBitset inputs blob_index discardable =
     (case find_input inputs (file_number blob_index) of
        None \<Rightarrow> (NotFound ''Blob file meta not found'', discardable)
      | Some file \<Rightarrow>
          if IsLiveData file (order' (blob_handle blob_index)) then (OK, False)
          else (OK, True))"

text \<open>
  \<^verbatim>\<open>DiscardEntry\<close> (lines 603--640): status, \<^verbatim>\<open>*discardable\<close>, \<^verbatim>\<open>*level\<close> and the job
  (the lookup is an event, its bytes are counted).
\<close>

definition DiscardEntry ::
  "Env \<Rightarrow> nat \<Rightarrow> string \<Rightarrow> BlobIndex \<Rightarrow> bool \<Rightarrow> Job \<Rightarrow> Status \<times> bool \<times> int \<times> Job"
where
  "DiscardEntry env i key blob_index discardable j =
     (let g = GetImpl_scan env i key;
          j1 = emit [EvGetImpl key] j;
          level = g_level g;
          gs = g_status g
      in if \<not> ok gs \<and> \<not> IsNotFound gs then (gs, discardable, level, j1)
         else
           let j2 = upd_metrics (\<lambda>m. m\<lparr>gc_bytes_read_check :=
                       gc_bytes_read_check m + (of_nat (length key) + of_nat (length (g_value g)))\<rparr>) j1
           in if IsNotFound gs \<or> \<not> g_is_blob_index g then (OK, True, level, j2)
              else
                (case DecodeFrom env (g_value g) of
                   (ds, other_blob_index) \<Rightarrow>
                     if \<not> ok ds then (ds, discardable, level, j2)
                     else (OK, \<not> blob_index_eq blob_index other_blob_index, level, j2)))"

text \<open>
  Lines 250--263 of the scan loop: the bitset check, then the LSM check when the bitset
  says live. Status, \<^verbatim>\<open>discardable\<close>, \<^verbatim>\<open>level\<close>, job.
\<close>

definition classify ::
  "Env \<Rightarrow> BlobFileMeta list \<Rightarrow> nat \<Rightarrow> GcTuple \<Rightarrow> Job \<Rightarrow> Status \<times> bool \<times> int \<times> Job"
where
  "classify env inputs i t j =
     (case DiscardEntryWithBitset inputs (t_blob_index t) False of
        (bs, discardable) \<Rightarrow>
          if \<not> ok bs then (bs, discardable, -1, j)
          else if \<not> discardable
            then DiscardEntry env i (t_key t) (t_blob_index t) discardable j
          else (bs, discardable, -1, j))"

subsection \<open>Queueing the new indices\<close>

text \<open>
  \<^verbatim>\<open>BatchWriteNewIndices\<close> (lines 523--550). The status argument is \<^verbatim>\<open>*s\<close>: it is
  assigned only inside the loop, so an empty \<^verbatim>\<open>contexts\<close> leaves it as it was. The
  callback's constructor asserts that the key is not empty (line 26).
\<close>

fun BatchWriteNewIndices ::
  "Env \<Rightarrow> BlobRecordContext list \<Rightarrow> Status \<Rightarrow> Job \<Rightarrow> Crash + (Status \<times> Job)"
where
  "BatchWriteNewIndices env [] st j = Inr (st, j)"
| "BatchWriteNewIndices env (ctx # contexts) st j =
     (let blob_index = \<lparr>file_number = file_number (ctx_new_blob_index ctx),
                         blob_handle = blob_handle (ctx_new_blob_index ctx)\<rparr>;
          original_index = ctx_original_blob_index ctx
      in case ParseInternalKey env (ctx_key ctx) of
           (ps, user_key) \<Rightarrow>
             if \<not> ok ps then Inr (ps, j)
             else if assertions env \<and> user_key = [] then Inl (AssertFailed ''!key_.empty()'')
             else
               let index_entry = EncodeTo env blob_index;
                   callback = \<lparr>cb_key = user_key, cb_blob_index = original_index,
                               cb_new_blob_index = blob_index, cb_read_bytes = 0\<rparr>;
                   ws = WriteBatch_PutBlobIndex env user_key index_entry;
                   wb = (if ok ws then [PutBlobIndex user_key index_entry] else []);
                   j1 = j\<lparr>rewrite_batches := rewrite_batches j @ [(wb, callback)]\<rparr>
               in if \<not> ok ws then Inr (ws, j1)
                  else BatchWriteNewIndices env contexts ws j1)"

text \<open>\<^verbatim>\<open>AddToShadow\<close> (lines 487--509): the status and the table builder.\<close>

fun AddToShadow ::
  "Env \<Rightarrow> BlobRecordContext list \<Rightarrow> TableBuilder \<Rightarrow> Status \<times> TableBuilder"
where
  "AddToShadow env [] b = (OK, b)"
| "AddToShadow env (ctx # contexts) b =
     (let blob_index = \<lparr>file_number = file_number (ctx_new_blob_index ctx),
                         blob_handle = blob_handle (ctx_new_blob_index ctx)\<rparr>;
          index_entry = EncodeTo env blob_index
      in case ParseInternalKey env (ctx_key ctx) of
           (ps, user_key) \<Rightarrow>
             if \<not> ok ps then (ps, b)
             else AddToShadow env contexts
                    (b\<lparr>tb_entries := tb_entries b @ [(user_key, index_entry)]\<rparr>))"

subsection \<open>Rewriting a live record\<close>

text \<open>
  Fallback mode (lines 276--291): the value goes back into the LSM; the callback
  carries an empty new blob index. \<open>Break\<close> and \<open>Continue\<close> are the loop's
  \<^verbatim>\<open>break\<close> and \<^verbatim>\<open>continue\<close>.
\<close>

definition fallback_rewrite :: "Env \<Rightarrow> GcTuple \<Rightarrow> Locals \<Rightarrow> Job \<Rightarrow> Crash + (Ctl \<times> Locals \<times> Job)" where
  "fallback_rewrite env t l j =
     (if assertions env \<and> t_key t = [] then Inl (AssertFailed ''!key_.empty()'')
      else
        let callback = \<lparr>cb_key = t_key t, cb_blob_index = t_blob_index t,
                        cb_new_blob_index = BlobIndex0, cb_read_bytes = 0\<rparr>;
            ws = WriteBatch_Put env (t_key t) (t_value t);
            wb = (if ok ws then [Put (t_key t) (t_value t)] else []);
            j1 = j\<lparr>rewrite_batches := rewrite_batches j @ [(wb, callback)]\<rparr>
        in Inr (if \<not> ok ws then Break else Continue, l\<lparr>loop_s := ws\<rparr>, j1))"

text \<open>
  Lines 296--302: the current output file and its builder are moved into
  \<^verbatim>\<open>blob_file_builders_\<close>, which leaves both local pointers null.
\<close>

definition roll_output :: "Env \<Rightarrow> Locals \<Rightarrow> Job \<Rightarrow> Crash + (Locals \<times> Job)" where
  "roll_output env l j =
     (if assertions env \<and> blob_file_builder l = None
        then Inl (AssertFailed ''blob_file_builder'')
      else if assertions env \<and> blob_file_handle l = None
        then Inl (AssertFailed ''blob_file_handle'')
      else if assertions env \<and>
              (case blob_file_builder l of None \<Rightarrow> False
               | Some b \<Rightarrow> \<not> ok (Builder_status env b))
        then Inl (AssertFailed ''blob_file_builder->status().ok()'')
      else Inr (l\<lparr>blob_file_handle := None, blob_file_builder := None\<rparr>,
                j\<lparr>blob_file_builders := blob_file_builders j @
                     [(blob_file_handle l, blob_file_builder l)]\<rparr>))"

text \<open>
  Lines 294--315: open the first output file, or roll to a new one when \<^verbatim>\<open>file_size\<close>
  has reached \<^verbatim>\<open>blob_file_target_size\<close>. The flag says that the loop breaks.
\<close>

definition open_output ::
  "Env \<Rightarrow> TitanCFOptions \<Rightarrow> nat \<Rightarrow> Locals \<Rightarrow> Job \<Rightarrow> Crash + (bool \<times> Locals \<times> Job)"
where
  "open_output env opts i l j =
     (if (blob_file_handle l = None \<and> blob_file_builder l = None) \<or>
         file_size l \<ge> blob_file_target_size opts
      then
        (case (if file_size l \<ge> blob_file_target_size opts then roll_output env l j
               else Inr (l, j)) of
           Inl c \<Rightarrow> Inl c
         | Inr (l1, j1) \<Rightarrow>
             (case NewFile env i of
                (ns, n) \<Rightarrow>
                  if \<not> ok ns then Inr (True, l1\<lparr>loop_s := ns\<rparr>, j1)
                  else Inr (False,
                            l1\<lparr>loop_s := ns, blob_file_handle := Some n,
                               blob_file_builder := Some \<lparr>bld_file = n, bld_added = []\<rparr>,
                               file_size := 0\<rparr>,
                            emit [EvNewFile n] j1)))
      else Inr (False, l, j))"

text \<open>Lines 316--336: the record is appended to the current output file.\<close>

definition add_record ::
  "Env \<Rightarrow> GcTuple \<Rightarrow> Locals \<Rightarrow> Job \<Rightarrow> Crash + (BlobRecordContext list \<times> Locals \<times> Job)"
where
  "add_record env t l j =
     (case blob_file_handle l of
        None \<Rightarrow> Inl (if assertions env then AssertFailed ''blob_file_handle''
                     else NullDeref ''blob_file_handle'')
      | Some n \<Rightarrow>
          (case blob_file_builder l of
             None \<Rightarrow> Inl (if assertions env then AssertFailed ''blob_file_builder''
                          else NullDeref ''blob_file_builder'')
           | Some b \<Rightarrow>
               let j1 = upd_metrics (\<lambda>m. m\<lparr>gc_bytes_written_blob :=
                           gc_bytes_written_blob m + BlobRecord_size env (t_key t) (t_value t)\<rparr>) j;
                   ctx = \<lparr>ctx_key = InternalKey_Encode env (t_key t),
                          ctx_original_blob_index = t_blob_index t,
                          ctx_new_blob_index = BlobIndex0\<lparr>file_number := n\<rparr>\<rparr>;
                   contexts = Builder_Add env b (t_key t) (t_value t) ctx;
                   b1 = b\<lparr>bld_added := bld_added b @ [(t_key t, t_value t, ctx)]\<rparr>
               in Inr (contexts, l\<lparr>blob_file_builder := Some b1\<rparr>,
                       emit [EvBlobAdd n (t_key t)] j1)))"

text \<open>
  Lines 368--374 and \<^verbatim>\<open>OpenGCOutputShadow\<close>: a shadow file for the level is opened when
  the slot is empty. The caller has checked that the slot exists. The flag says that
  the loop breaks.
\<close>

definition open_shadow :: "Env \<Rightarrow> nat \<Rightarrow> int \<Rightarrow> Locals \<Rightarrow> Job \<Rightarrow> bool \<times> Locals \<times> Job" where
  "open_shadow env i level l j =
     (case level_shadow_builders l ! nat level of
        Some b \<Rightarrow> (False, l, j)
      | None \<Rightarrow>
          let os = OpenShadow env i level
          in if \<not> ok os then (True, l\<lparr>loop_s := os\<rparr>, j)
             else (False,
                   l\<lparr>loop_s := os,
                     level_shadow_builders := (level_shadow_builders l)
                       [nat level := Some \<lparr>tb_level = level, tb_entries = []\<rparr>],
                     level_shadow_files := (level_shadow_files l)[nat level := Some level],
                     shadow_size := 0\<rparr>,
                   emit [EvOpenShadow level] j))"

text \<open>
  Lines 367--388, the shadow branch. \<^verbatim>\<open>level_shadow_builders[level]\<close> is an
  \<^verbatim>\<open>autovector\<close> subscript with an \<^verbatim>\<open>int\<close>: nothing in the job compares \<^verbatim>\<open>level\<close> with
  the vector's size, so a level outside it is an access outside the vector.
\<close>

definition shadow_rewrite ::
  "Env \<Rightarrow> TitanCFOptions \<Rightarrow> nat \<Rightarrow> int \<Rightarrow> BlobRecordContext list \<Rightarrow> Locals \<Rightarrow> Job \<Rightarrow>
   Crash + (Locals \<times> Job)"
where
  "shadow_rewrite env opts i level contexts l j =
     (if \<not> (0 \<le> level \<and> level < int (length (level_shadow_builders l)))
        then Inl (OutOfBounds level)
      else
        (case open_shadow env i level l j of
           (brk, l1, j1) \<Rightarrow>
             if brk then Inr (l1, j1)
             else
               (case level_shadow_builders l1 ! nat level of
                  None \<Rightarrow> Inl (if assertions env then AssertFailed ''level_shadow_builders[level]''
                               else NullDeref ''level_shadow_builders[level]'')
                | Some b \<Rightarrow>
                    (case AddToShadow env contexts b of
                       (as, b1) \<Rightarrow>
                         let l2 = l1\<lparr>loop_s := as,
                                    level_shadow_builders :=
                                      (level_shadow_builders l1)[nat level := Some b1]\<rparr>
                         in if \<not> ok as then Inr (l2, j1)
                            else
                              let l3 = l2\<lparr>shadow_size := Shadow_EstimatedFileSize env b1\<rparr>
                              in if shadow_size l3 \<ge> shadow_target_size opts then
                                   (let fs = Shadow_Finish env b1;
                                        j2 = emit [EvShadowFinish level] j1
                                    in if \<not> ok fs then Inr (l3\<lparr>loop_s := fs\<rparr>, j2)
                                       else Inr (l3\<lparr>loop_s := fs,
                                                   level_shadow_builders :=
                                                     (level_shadow_builders l3)[nat level := None],
                                                   level_shadow_files :=
                                                     (level_shadow_files l3)[nat level := None]\<rparr>,
                                                 j2))
                                 else Inr (l3, j1)))))"

text \<open>Lines 389--392, the LSM branch.\<close>

definition lsm_rewrite ::
  "Env \<Rightarrow> BlobRecordContext list \<Rightarrow> Locals \<Rightarrow> Job \<Rightarrow> Crash + (Locals \<times> Job)"
where
  "lsm_rewrite env contexts l j =
     (case BatchWriteNewIndices env contexts (loop_s l) j of
        Inl c \<Rightarrow> Inl c
      | Inr (st, j1) \<Rightarrow> Inr (l\<lparr>loop_s := st\<rparr>, j1))"

text \<open>Lines 276--396: what the loop does with a record classified live.\<close>

definition rewrite_live ::
  "Env \<Rightarrow> TitanCFOptions \<Rightarrow> nat \<Rightarrow> GcTuple \<Rightarrow> int \<Rightarrow> Locals \<Rightarrow> Job \<Rightarrow>
   Crash + (Ctl \<times> Locals \<times> Job)"
where
  "rewrite_live env opts i t level l j =
     (if blob_run_mode opts = kFallback then fallback_rewrite env t l j
      else
        (case open_output env opts i l j of
           Inl c \<Rightarrow> Inl c
         | Inr (brk, l1, j1) \<Rightarrow>
             if brk then Inr (Break, l1, j1)
             else
               (case add_record env t l1 j1 of
                  Inl c \<Rightarrow> Inl c
                | Inr (contexts, l2, j2) \<Rightarrow>
                    (case (if rewrite_shadow opts
                             then shadow_rewrite env opts i level contexts l2 j2
                           else lsm_rewrite env contexts l2 j2) of
                       Inl c \<Rightarrow> Inl c
                     | Inr (l3, j3) \<Rightarrow>
                         Inr (if \<not> ok (loop_s l3) then Break else Continue, l3, j3)))))"

subsection \<open>The scan loop\<close>

text \<open>
  Lines 250--274 and what follows them: classification, the counters of a discardable
  record, and for a live one \<^verbatim>\<open>valid_count++\<close>, \<^verbatim>\<open>last_key_is_fresh = true\<close> and the
  rewrite.
\<close>

definition classify_and_rewrite ::
  "Env \<Rightarrow> TitanCFOptions \<Rightarrow> BlobFileMeta list \<Rightarrow> nat \<Rightarrow> GcTuple \<Rightarrow> Locals \<Rightarrow> Job \<Rightarrow>
   Crash + (Ctl \<times> Locals \<times> Job)"
where
  "classify_and_rewrite env opts inputs i t l j =
     (case classify env inputs i t j of
        (cs, discardable, level, j1) \<Rightarrow>
          if \<not> ok cs then Inr (Break, l\<lparr>loop_s := cs\<rparr>, j1)
          else if discardable then
            Inr (Continue,
                 l\<lparr>loop_s := cs, discardable_count := discardable_count l + 1\<rparr>,
                 upd_metrics (\<lambda>m. m\<lparr>gc_num_keys_overwritten_check :=
                                       gc_num_keys_overwritten_check m + 1,
                                     gc_bytes_overwritten_check :=
                                       gc_bytes_overwritten_check m +
                                       size' (blob_handle (t_blob_index t))\<rparr>) j1)
          else
            rewrite_live env opts i t level
              (l\<lparr>loop_s := cs, valid_count := valid_count l + 1, last_key_is_fresh := True\<rparr>)
              j1)"

text \<open>One iteration of the loop of lines 228--397, for the \<open>i\<close>-th record of the iterator.\<close>

definition scan_step ::
  "Env \<Rightarrow> TitanCFOptions \<Rightarrow> BlobFileMeta list \<Rightarrow> nat \<Rightarrow> GcTuple \<Rightarrow> Locals \<Rightarrow> Job \<Rightarrow>
   Crash + (Ctl \<times> Locals \<times> Job)"
where
  "scan_step env opts inputs i t l j =
     (let l1 = l\<lparr>total_count := total_count l + 1\<rparr>
      in if IsShutingDown_scan env i then Inr (Break, l1\<lparr>loop_s := ShutdownInProgress\<rparr>, j)
         else
           let j1 = upd_metrics (\<lambda>m. m\<lparr>gc_bytes_read_blob :=
                       gc_bytes_read_blob m + size' (blob_handle (t_blob_index t))\<rparr>) j
           in if last_key l1 \<noteq> [] \<and> t_key t = last_key l1 then
                (if last_key_is_fresh l1 then Inr (Continue, l1, j1)
                 else classify_and_rewrite env opts inputs i t l1 j1)
              else
                classify_and_rewrite env opts inputs i t
                  (l1\<lparr>last_key := t_key t, last_key_is_fresh := False\<rparr>) j1)"

fun scan_loop ::
  "Env \<Rightarrow> TitanCFOptions \<Rightarrow> BlobFileMeta list \<Rightarrow> nat \<Rightarrow> GcTuple list \<Rightarrow> Locals \<Rightarrow> Job \<Rightarrow>
   Crash + (Locals \<times> Job)"
where
  "scan_loop env opts inputs i [] l j = Inr (l, j)"
| "scan_loop env opts inputs i (t # ts) l j =
     (case scan_step env opts inputs i t l j of
        Inl c \<Rightarrow> Inl c
      | Inr (Break, l1, j1) \<Rightarrow> Inr (l1, j1)
      | Inr (Continue, l1, j1) \<Rightarrow> scan_loop env opts inputs (Suc i) ts l1 j1)"

subsection \<open>Before and after the loop\<close>

text \<open>\<^verbatim>\<open>BuildIterator\<close> (lines 552--576): one reader per input file, the first failure wins.\<close>

fun open_readers :: "Env \<Rightarrow> BlobFileMeta list \<Rightarrow> Status" where
  "open_readers env [] = OK"
| "open_readers env (f # fs) =
     (let rs = NewBlobFileReader env (m_file_number f)
      in if \<not> ok rs then rs else open_readers env fs)"

definition BuildIterator :: "Env \<Rightarrow> BlobFileMeta list \<Rightarrow> Crash + Status" where
  "BuildIterator env inputs =
     (if assertions env \<and> inputs = [] then Inl (AssertFailed ''!inputs.empty()'')
      else Inr (open_readers env inputs))"

text \<open>
  Lines 427--436: every open shadow builder is finished, each status assigned to
  \<^verbatim>\<open>s\<close>; the first failure returns. The flag says that the function returned early.
\<close>

fun finish_level_shadows ::
  "Env \<Rightarrow> TableBuilder option list \<Rightarrow> Status \<Rightarrow>
   bool \<times> Status \<times> TableBuilder option list \<times> Event list"
where
  "finish_level_shadows env [] st = (False, st, [], [])"
| "finish_level_shadows env (None # bs) st =
     (case finish_level_shadows env bs st of
        (early, r, bs1, es) \<Rightarrow> (early, r, None # bs1, es))"
| "finish_level_shadows env (Some b # bs) st =
     (let fs = Shadow_Finish env b
      in if \<not> ok fs then (True, fs, Some b # bs, [EvShadowFinish (tb_level b)])
         else
           (case finish_level_shadows env bs fs of
              (early, r, bs1, es) \<Rightarrow> (early, r, None # bs1, EvShadowFinish (tb_level b) # es)))"

text \<open>Lines 405--416: the last output file joins \<^verbatim>\<open>blob_file_builders_\<close>. The flag says
  that the iterator's status is returned.\<close>

definition keep_last_output :: "Env \<Rightarrow> Locals \<Rightarrow> Job \<Rightarrow> Crash + (bool \<times> Locals \<times> Job)" where
  "keep_last_output env l j =
     (if ok (iter_status env) \<and> ok (loop_s l) then
        (case (blob_file_builder l, blob_file_handle l) of
           (Some b, Some n) \<Rightarrow>
             if assertions env \<and> \<not> ok (Builder_status env b)
               then Inl (AssertFailed ''blob_file_builder->status().ok()'')
             else Inr (False, l\<lparr>blob_file_handle := None, blob_file_builder := None\<rparr>,
                       j\<lparr>blob_file_builders := blob_file_builders j @ [(Some n, Some b)]\<rparr>)
         | (Some b, None) \<Rightarrow>
             if assertions env then Inl (AssertFailed ''!blob_file_builder'')
             else Inr (False, l, j)
         | (None, Some n) \<Rightarrow>
             if assertions env then Inl (AssertFailed ''!blob_file_handle'')
             else Inr (False, l, j)
         | (None, None) \<Rightarrow> Inr (False, l, j))
      else if \<not> ok (iter_status env) then Inr (True, l, j)
      else Inr (False, l, j))"

text \<open>Lines 405--444.\<close>

definition after_loop ::
  "Env \<Rightarrow> TitanCFOptions \<Rightarrow> Locals \<Rightarrow> Job \<Rightarrow> Crash + (Status \<times> Locals \<times> Job)"
where
  "after_loop env opts l j =
     (case keep_last_output env l j of
        Inl c \<Rightarrow> Inl c
      | Inr (returned, l1, j1) \<Rightarrow>
          if returned then Inr (iter_status env, l1, j1)
          else if rewrite_shadow opts then
            (case finish_level_shadows env (level_shadow_builders l1) (loop_s l1) of
               (early, fs, bs, es) \<Rightarrow>
                 if early
                   then Inr (fs, l1\<lparr>loop_s := fs, level_shadow_builders := bs\<rparr>, emit es j1)
                 else Inr (fs,
                           l1\<lparr>loop_s := fs, level_shadow_builders := bs,
                              level_shadow_files := map (\<lambda>f. None) (level_shadow_files l1)\<rparr>,
                           emit es j1))
          else Inr (loop_s l1, l1, j1))"

text \<open>The locals as lines 204--225 initialise them; both shadow vectors are resized to 7.\<close>

definition init_locals :: Locals where
  "init_locals =
     \<lparr>loop_s = OK, blob_file_handle = None, blob_file_builder = None,
      level_shadow_builders = replicate 7 None, level_shadow_files = replicate 7 None,
      file_size = 0, shadow_size = 0, discardable_count = 0, total_count = 0,
      valid_count = 0, last_key = [], last_key_is_fresh = False\<rparr>"

text \<open>
  \<^verbatim>\<open>DoRunGC\<close> (lines 188--445). \<open>tuples\<close> are the records the merged iterator yields, in
  its order, until \<^verbatim>\<open>Valid()\<close> turns false.
\<close>

definition DoRunGC ::
  "Env \<Rightarrow> TitanCFOptions \<Rightarrow> BlobFileMeta list \<Rightarrow> GcTuple list \<Rightarrow> Job \<Rightarrow>
   Crash + (Status \<times> Locals \<times> Job)"
where
  "DoRunGC env opts inputs tuples j =
     (case BuildIterator env inputs of
        Inl c \<Rightarrow> Inl c
      | Inr bs \<Rightarrow>
          if \<not> ok bs then Inr (bs, init_locals\<lparr>loop_s := bs\<rparr>, j)
          else if assertions env \<and> tuples = [] then Inl (AssertFailed ''gc_iter->Valid()'')
          else
            (case scan_loop env opts inputs 0 tuples (init_locals\<lparr>loop_s := bs\<rparr>) j of
               Inl c \<Rightarrow> Inl c
             | Inr (l, j1) \<Rightarrow> after_loop env opts l j1))"

text \<open>\<^verbatim>\<open>Run\<close> (lines 165--186) logs the inputs and calls \<^verbatim>\<open>DoRunGC\<close>.\<close>

definition Run ::
  "Env \<Rightarrow> TitanCFOptions \<Rightarrow> BlobFileMeta list \<Rightarrow> GcTuple list \<Rightarrow> Job \<Rightarrow> Crash + (Status \<times> Job)"
where
  "Run env opts inputs tuples j =
     (case DoRunGC env opts inputs tuples j of
        Inl c \<Rightarrow> Inl c
      | Inr (st, l, j1) \<Rightarrow> Inr (st, j1))"

definition init_job :: Job where
  "init_job =
     \<lparr>metrics = \<lparr>gc_bytes_read_check = 0, gc_bytes_read_blob = 0, gc_bytes_read_callback = 0,
                 gc_bytes_written_lsm = 0, gc_bytes_written_blob = 0,
                 gc_num_keys_overwritten_check = 0, gc_num_keys_overwritten_callback = 0,
                 gc_bytes_overwritten_check = 0, gc_bytes_overwritten_callback = 0,
                 gc_num_keys_relocated = 0, gc_bytes_relocated = 0,
                 gc_num_keys_fallback = 0, gc_bytes_fallback = 0,
                 gc_num_new_files = 0, gc_num_files = 0\<rparr>,
      rewrite_batches = [], blob_file_builders = [], outputs = [],
      blob_storage = (\<lambda>n. None), trace = []\<rparr>"

subsection \<open>Finish: installing the output blob files\<close>

text \<open>
  The loop of \<^verbatim>\<open>InstallOutputBlobFiles\<close> (lines 709--731). It returns the status, the
  job, the files collected for publishing (metadata and handle), and
  \<^verbatim>\<open>blob_file_builders_\<close> as the loop leaves it: the handle of every builder it got
  through has been moved into \<^verbatim>\<open>files\<close>, so that slot holds a null pointer.
  \<open>Builder_meta\<close> is the file size, the number of entries and the live data size.
\<close>

fun finish_builders ::
  "Env \<Rightarrow> (u64 option \<times> BlobFileBuilder option) list \<Rightarrow> Status \<Rightarrow> Job \<Rightarrow>
   (BlobFileMeta \<times> u64) list \<Rightarrow>
   Crash + (Status \<times> Job \<times> (BlobFileMeta \<times> u64) list \<times>
            (u64 option \<times> BlobFileBuilder option) list)"
where
  "finish_builders env [] st j files = Inr (st, j, files, [])"
| "finish_builders env ((h, b) # rest) st j files =
     (case b of
        None \<Rightarrow> Inl (NullDeref ''builder.second'')
      | Some bl \<Rightarrow>
          (case Builder_Finish env bl of
             (fs, contexts) \<Rightarrow>
               (case BatchWriteNewIndices env contexts fs
                       (emit [EvBuilderFinish (bld_file bl)] j) of
                  Inl c \<Rightarrow> Inl c
                | Inr (s1, j1) \<Rightarrow>
                    if \<not> ok s1 then Inr (s1, j1, files, (h, b) # rest)
                    else
                      (case h of
                         None \<Rightarrow> Inl (NullDeref ''builder.first'')
                       | Some n \<Rightarrow>
                           (case Builder_meta env bl of
                              (fsize, entries, live) \<Rightarrow>
                                let j2 = upd_metrics (\<lambda>m. m\<lparr>gc_num_new_files :=
                                            gc_num_new_files m + 1\<rparr>) j1;
                                    file = InitLiveDataBitset entries
                                             \<lparr>m_file_number = n, m_file_size = fsize,
                                              m_live_data_size = live, m_live_bitset = [],
                                              m_state = kPendingGCOutput\<rparr>
                                in case finish_builders env rest s1 j2 (files @ [(file, n)]) of
                                     Inl c \<Rightarrow> Inl c
                                   | Inr (r, j3, files3, rest3) \<Rightarrow>
                                       Inr (r, j3, files3, (None, b) # rest3))))))"

text \<open>
  Modelled from the spec: what a successful \<^verbatim>\<open>BlobFileManager::BatchFinishFiles\<close> does to
  the blob storage (the manager is not part of the sources). It publishes the files as
  normal; the job then records them as its outputs.
\<close>

definition publish :: "BlobFileMeta list \<Rightarrow> Job \<Rightarrow> Job" where
  "publish files j =
     j\<lparr>outputs := outputs j @ map m_file_number files,
       blob_storage := fold (\<lambda>f st. st(m_file_number f \<mapsto> f\<lparr>m_state := kNormalState\<rparr>))
                         files (blob_storage j)\<rparr>"

text \<open>
  \<^verbatim>\<open>InstallOutputBlobFiles\<close> (lines 702--770). The failure branch reads
  \<^verbatim>\<open>builder.first->GetNumber()\<close> of every builder, also of those whose handle the loop
  has moved away.
\<close>

definition InstallOutputBlobFiles :: "Env \<Rightarrow> Job \<Rightarrow> Crash + (Status \<times> Job)" where
  "InstallOutputBlobFiles env j =
     (case finish_builders env (blob_file_builders j) OK j [] of
        Inl c \<Rightarrow> Inl c
      | Inr (st, j1, files, builders1) \<Rightarrow>
          let j2 = j1\<lparr>blob_file_builders := builders1\<rparr>
          in if ok st then
               (let ps = BatchFinishFiles env (map snd files);
                    j3 = emit [EvBatchFinishFiles (map snd files)] j2
                in if ok ps then Inr (ps, publish (map fst files) j3) else Inr (ps, j3))
             else
               (case those (map fst builders1) of
                  None \<Rightarrow> Inl (NullDeref ''builder.first'')
                | Some handles \<Rightarrow>
                    Inr (st, emit [EvBatchDeleteFiles handles]
                               (j2\<lparr>blob_file_builders :=
                                     map (\<lambda>(h, b). (None, b)) builders1\<rparr>))))"

subsection \<open>Finish: rewriting the keys\<close>

text \<open>
  Modelled from the spec: \<^verbatim>\<open>DBImpl::WriteWithCallback\<close> (the LSM engine is not part of
  the sources). The batch is committed iff the callback returns OK, otherwise the
  callback's status is returned; the commit itself can fail. Status, callback object,
  events.
\<close>

definition WriteWithCallback ::
  "Env \<Rightarrow> nat \<Rightarrow> WriteBatch \<Rightarrow> GarbageCollectionWriteCallback \<Rightarrow>
   Status \<times> GarbageCollectionWriteCallback \<times> Event list"
where
  "WriteWithCallback env i wb cb =
     (case Callback (DecodeFrom env) (GetImpl_commit env i) cb of
        (cs, cb1) \<Rightarrow>
          if \<not> ok cs then (cs, cb1, [EvGetImpl (cb_key cb)])
          else
            let ws = Write_status env i
            in (ws, cb1, EvGetImpl (cb_key cb) # (if ok ws then [EvWrite wb] else [])))"

text \<open>
  \<^verbatim>\<open>dropped\<close> (line 782): per output file number, the dropped bytes and the set of
  dropped orders. An association list in order of first insertion stands for the
  \<^verbatim>\<open>unordered_map\<close> (whose iteration order the language leaves open), an ascending
  duplicate-free list for the \<^verbatim>\<open>std::set\<close>.
\<close>

type_synonym Dropped = "(u64 \<times> u64 \<times> u64 list) list"

fun dropped_add :: "u64 \<Rightarrow> u64 \<Rightarrow> u64 \<Rightarrow> Dropped \<Rightarrow> Dropped" where
  "dropped_add fn sz ord [] = [(fn, 0 + sz, [ord])]"
| "dropped_add fn sz ord ((n, bytes, ords) # d) =
     (if n = fn then (n, bytes + sz, if ord \<in> set ords then ords else insort ord ords) # d
      else (n, bytes, ords) # dropped_add fn sz ord d)"

text \<open>
  The loop of lines 784--822, from the \<open>i\<close>-th batch on. It returns the status, the job,
  \<^verbatim>\<open>dropped\<close> and the batches with their callbacks as the loop leaves them.
\<close>

fun rewrite_loop ::
  "Env \<Rightarrow> nat \<Rightarrow> (WriteBatch \<times> GarbageCollectionWriteCallback) list \<Rightarrow> Status \<Rightarrow> Job \<Rightarrow>
   Dropped \<Rightarrow>
   Status \<times> Job \<times> Dropped \<times> (WriteBatch \<times> GarbageCollectionWriteCallback) list"
where
  "rewrite_loop env i [] st j d = (st, j, d, [])"
| "rewrite_loop env i ((wb, cb) # rest) st j d =
     (if IsDropped_rewrite env i then (Aborted ''Column family drop'', j, d, (wb, cb) # rest)
      else if IsShutingDown_rewrite env i then (ShutdownInProgress, j, d, (wb, cb) # rest)
      else
        (case WriteWithCallback env i wb cb of
           (ws, cb1, es) \<Rightarrow>
             let j1 = emit es j;
                 new_blob_index = cb_new_blob_index cb1;
                 count_read = upd_metrics (\<lambda>m. m\<lparr>gc_bytes_read_callback :=
                                gc_bytes_read_callback m + cb_read_bytes cb1\<rparr>)
             in if ok ws then
                  (let j2 =
                         (if size' (blob_handle new_blob_index) > 0 then
                            upd_metrics (\<lambda>m. m\<lparr>gc_bytes_written_lsm :=
                                                  gc_bytes_written_lsm m + WriteBatch_GetDataSize env wb,
                                                gc_num_keys_relocated := gc_num_keys_relocated m + 1,
                                                gc_bytes_relocated :=
                                                  gc_bytes_relocated m + blob_record_size cb1\<rparr>) j1
                          else
                            upd_metrics (\<lambda>m. m\<lparr>gc_num_keys_fallback := gc_num_keys_fallback m + 1,
                                                gc_bytes_fallback :=
                                                  gc_bytes_fallback m + blob_record_size cb1\<rparr>) j1)
                   in case rewrite_loop env (Suc i) rest ws (count_read j2) d of
                        (r, j3, d3, rest3) \<Rightarrow> (r, j3, d3, (wb, cb1) # rest3))
                else if IsBusy ws then
                  (let j2 = upd_metrics (\<lambda>m. m\<lparr>gc_num_keys_overwritten_callback :=
                                                  gc_num_keys_overwritten_callback m + 1,
                                                gc_bytes_overwritten_callback :=
                                                  gc_bytes_overwritten_callback m +
                                                  blob_record_size cb1\<rparr>) j1;
                       d1 = dropped_add (file_number new_blob_index)
                              (size' (blob_handle new_blob_index))
                              (order' (blob_handle new_blob_index)) d
                   in case rewrite_loop env (Suc i) rest ws (count_read j2) d1 of
                        (r, j3, d3, rest3) \<Rightarrow> (r, j3, d3, (wb, cb1) # rest3))
                else (ws, j1, d, (wb, cb1) # rest)))"

text \<open>
  Lines 829--851: the bookkeeping for the dropped records, file by file. A file that
  the blob storage does not hold, or a missing blob storage, is logged and passed over.
\<close>

fun apply_dropped :: "Env \<Rightarrow> Dropped \<Rightarrow> Job \<Rightarrow> Job" where
  "apply_dropped env [] j = j"
| "apply_dropped env ((fn, bytes, ords) # d) j =
     (if GetBlobStorage_found env then
        (case blob_storage j fn of
           None \<Rightarrow> apply_dropped env d j
         | Some file \<Rightarrow>
             let file1 = fold (\<lambda>ord f. SetLiveDataBitset ord False f) ords file;
                 file2 = UpdateLiveDataSize (- bytes) file1;
                 j1 = j\<lparr>blob_storage := (blob_storage j)(fn \<mapsto> file2)\<rparr>;
                 j2 = emit (map (EvSetLiveDataBitset fn) ords @
                            [EvUpdateLiveDataSize fn (- bytes), EvComputeGCScore]) j1
             in apply_dropped env d j2)
      else apply_dropped env d j)"

text \<open>\<^verbatim>\<open>RewriteValidKeyToLSM\<close> (lines 772--860).\<close>

definition RewriteValidKeyToLSM :: "Env \<Rightarrow> Job \<Rightarrow> Status \<times> Job" where
  "RewriteValidKeyToLSM env j =
     (case rewrite_loop env 0 (rewrite_batches j) OK j [] of
        (ls, j1, dropped, batches1) \<Rightarrow>
          let st = (if IsBusy ls then OK else ls);
              j2 = j1\<lparr>rewrite_batches := batches1\<rparr>;
              j3 = emit [EvMutexUnlock] (apply_dropped env dropped (emit [EvMutexLock] j2))
          in if ok st then (FlushWAL env, emit [EvFlushWAL] j3) else (st, j3))"

subsection \<open>Finish: the rest\<close>

text \<open>\<^verbatim>\<open>InstallOutputShadows\<close> (lines 694--700).\<close>

definition InstallOutputShadows :: "Job \<Rightarrow> Status \<times> Job" where
  "InstallOutputShadows j = (OK, emit [EvInstallShadows] j)"

text \<open>
  \<^verbatim>\<open>DeleteInputBlobFiles\<close> (lines 862--886): one manifest edit that deletes every input
  file not yet obsolete, at the latest sequence number.
\<close>

definition DeleteInputBlobFiles :: "Env \<Rightarrow> BlobFileMeta list \<Rightarrow> Job \<Rightarrow> Status \<times> Job" where
  "DeleteInputBlobFiles env inputs j =
     (let obsolete_sequence = GetLatestSequenceNumber env;
          j1 = upd_metrics (\<lambda>m. m\<lparr>gc_num_files := gc_num_files m + of_nat (length inputs)\<rparr>) j;
          edit = map m_file_number (filter (\<lambda>f. \<not> is_obsolete f) inputs)
      in (LogAndApply env edit, emit [EvLogAndApply edit obsolete_sequence] j1))"

text \<open>\<^verbatim>\<open>Finish\<close> (lines 645--692). The caller holds the engine mutex.\<close>

definition Finish ::
  "Env \<Rightarrow> TitanCFOptions \<Rightarrow> BlobFileMeta list \<Rightarrow> Job \<Rightarrow> Crash + (Status \<times> Job)"
where
  "Finish env opts inputs j =
     (case InstallOutputBlobFiles env (emit [EvMutexUnlock] j) of
        Inl c \<Rightarrow> Inl c
      | Inr (st1, j1) \<Rightarrow>
          (case (if ok st1 then
                   (if \<not> rewrite_shadow opts then RewriteValidKeyToLSM env j1
                    else InstallOutputShadows j1)
                 else (st1, j1)) of
             (st2, j2) \<Rightarrow>
               let j3 = emit [EvMutexLock] j2
               in if ok st2 \<and> \<not> IsDropped_final env
                    then Inr (DeleteInputBlobFiles env inputs j3)
                  else Inr (st2, j3)))"

subsection \<open>Reading a run\<close>

text \<open>The user keys of the records appended to output blob files, in order.\<close>

fun blob_added_keys :: "Event list \<Rightarrow> string list" where
  "blob_added_keys [] = []"
| "blob_added_keys (EvBlobAdd n k # es) = k # blob_added_keys es"
| "blob_added_keys (e # es) = blob_added_keys es"

text \<open>
  The user keys whose rewrite the scan has scheduled: in fallback mode the keys of the
  queued batches, otherwise the keys appended to output blob files.
\<close>

definition scheduled_keys :: "TitanCFOptions \<Rightarrow> Job \<Rightarrow> string list" where
  "scheduled_keys opts j =
     (if blob_run_mode opts = kFallback then map (\<lambda>b. cb_key (snd b)) (rewrite_batches j)
      else blob_added_keys (trace j))"

text \<open>
  What the merged iterator promises about the order of its keys, as far as the scan
  relies on it: the versions of one user key come one after the other.
\<close>

fun adjacent_keys :: "string list \<Rightarrow> bool" where
  "adjacent_keys [] = True"
| "adjacent_keys (k # ks) = ((if k \<in> set ks then hd ks = k else True) \<and> adjacent_keys ks)"

text \<open>Kinds of events, for statements about what a run did and in which order.\<close>

fun is_publish :: "Event \<Rightarrow> bool" where
  "is_publish (EvBatchFinishFiles fs) = True"
| "is_publish e = False"

fun is_delete :: "Event \<Rightarrow> bool" where
  "is_delete (EvBatchDeleteFiles hs) = True"
| "is_delete e = False"

fun is_write :: "Event \<Rightarrow> bool" where
  "is_write (EvWrite wb) = True"
| "is_write e = False"

fun is_flush :: "Event \<Rightarrow> bool" where
  "is_flush EvFlushWAL = True"
| "is_flush e = False"

fun is_edit :: "Event \<Rightarrow> bool" where
  "is_edit (EvLogAndApply fs sq) = True"
| "is_edit e = False"

fun is_adjust :: "Event \<Rightarrow> bool" where
  "is_adjust (EvSetLiveDataBitset n ord) = True"
| "is_adjust (EvUpdateLiveDataSize n delta) = True"
| "is_adjust EvComputeGCScore = True"
| "is_adjust e = False"

text \<open>
  \<open>all_before P Q es\<close>: in \<open>es\<close>, every event of kind \<open>P\<close> comes before every event of
  kind \<open>Q\<close> (from an event of kind \<open>Q\<close> on, no event is of kind \<open>P\<close>).
\<close>

fun all_before :: "(Event \<Rightarrow> bool) \<Rightarrow> (Event \<Rightarrow> bool) \<Rightarrow> Event list \<Rightarrow> bool" where
  "all_before P Q [] = True"
| "all_before P Q (e # es) =
     ((if Q e then list_all (\<lambda>x. \<not> P x) (e # es) else True) \<and> all_before P Q es)"

subsection \<open>Sample collaborators for concrete runs\<close>

definition bi :: "nat \<Rightarrow> nat \<Rightarrow> nat \<Rightarrow> nat \<Rightarrow> BlobIndex" where
  "bi f off sz ord =
     \<lparr>file_number = of_nat f,
      blob_handle = \<lparr>offset = of_nat off, size' = of_nat sz, order' = of_nat ord\<rparr>\<rparr>"

text \<open>
  A toy index encoding for concrete runs: \<open>''A''\<close> and \<open>''B''\<close> decode to two different
  blob indices, anything else is corrupt.
\<close>

definition sample_decode :: Decoder where
  "sample_decode e =
     (if e = ''A'' then (OK, bi 1 0 10 0)
      else if e = ''B'' then (OK, bi 2 0 10 0)
      else (Corruption ''bad blob index'', BlobIndex0))"

definition get_missing :: GetResult where
  "get_missing = \<lparr>g_status = NotFound [], g_value = [], g_is_blob_index = False, g_level = -1\<rparr>"

definition get_inline :: GetResult where
  "get_inline = \<lparr>g_status = OK, g_value = ''v'', g_is_blob_index = False, g_level = 0\<rparr>"

definition get_index :: "string \<Rightarrow> int \<Rightarrow> GetResult" where
  "get_index e l = \<lparr>g_status = OK, g_value = e, g_is_blob_index = True, g_level = l\<rparr>"

definition get_error :: GetResult where
  "get_error = \<lparr>g_status = IOError ''read'', g_value = [], g_is_blob_index = False, g_level = -1\<rparr>"

definition sample_cb :: GarbageCollectionWriteCallback where
  "sample_cb = \<lparr>cb_key = ''k'', cb_blob_index = bi 1 0 10 0,
                cb_new_blob_index = bi 7 0 10 0, cb_read_bytes = 0\<rparr>"

text \<open>
  A toy internal key: one tag character in front of the user key.
\<close>

definition sample_parse :: "string \<Rightarrow> Status \<times> string" where
  "sample_parse k = (case k of [] \<Rightarrow> (Corruption ''bad internal key'', []) | c # u \<Rightarrow> (OK, u))"

text \<open>
  A toy unbuffered builder: \<^verbatim>\<open>Add\<close> hands the context straight back with the new
  handle filled in (size: key plus value, order: the number of earlier records).
\<close>

definition sample_add ::
  "BlobFileBuilder \<Rightarrow> string \<Rightarrow> string \<Rightarrow> BlobRecordContext \<Rightarrow> BlobRecordContext list"
where
  "sample_add b k v ctx =
     [ctx\<lparr>ctx_new_blob_index :=
            \<lparr>file_number = file_number (ctx_new_blob_index ctx),
             blob_handle = \<lparr>offset = 0, size' = of_nat (length k + length v),
                            order' = of_nat (length (bld_added b))\<rparr>\<rparr>\<rparr>]"

text \<open>
  An environment in which every collaborator succeeds, nothing shuts down, and the LSM
  holds the index \<open>''A''\<close> (file 1, order 0, size 10) at level 0 for every key.
  New output files are numbered from 100.
\<close>

definition sample_env :: Env where
  "sample_env =
     \<lparr>assertions = False,
      DecodeFrom = sample_decode,
      EncodeTo = (\<lambda>b. ''N''),
      InternalKey_Encode = (\<lambda>k. CHR ''i'' # k),
      ParseInternalKey = sample_parse,
      WriteBatch_Put = (\<lambda>k v. OK),
      WriteBatch_PutBlobIndex = (\<lambda>k e. OK),
      WriteBatch_GetDataSize = (\<lambda>wb. 16),
      BlobRecord_size = (\<lambda>k v. of_nat (length k + length v)),
      NewBlobFileReader = (\<lambda>n. OK),
      iter_status = OK,
      IsShutingDown_scan = (\<lambda>i. False),
      GetImpl_scan = (\<lambda>i k. get_index ''A'' 0),
      NewFile = (\<lambda>i. (OK, 100 + of_nat i)),
      Builder_Add = sample_add,
      Builder_status = (\<lambda>b. OK),
      Builder_Finish = (\<lambda>b. (OK, [])),
      Builder_meta = (\<lambda>b. (64, of_nat (length (bld_added b)), 64)),
      OpenShadow = (\<lambda>i l. OK),
      Shadow_EstimatedFileSize = (\<lambda>b. of_nat (length (tb_entries b))),
      Shadow_Finish = (\<lambda>b. OK),
      BatchFinishFiles = (\<lambda>fs. OK),
      IsDropped_rewrite = (\<lambda>i. False),
      IsShutingDown_rewrite = (\<lambda>i. False),
      GetImpl_commit = (\<lambda>i k. get_index ''A'' 0),
      Write_status = (\<lambda>i. OK),
      GetBlobStorage_found = True,
      FlushWAL = OK,
      IsDropped_final = False,
      GetLatestSequenceNumber = 42,
      LogAndApply = (\<lambda>e. OK)\<rparr>"

definition sample_opts :: TitanCFOptions where
  "sample_opts = \<lparr>blob_run_mode = kNormal, blob_file_target_size = 10,
                  rewrite_shadow = False, shadow_target_size = 1000\<rparr>"

definition sample_input :: "nat \<Rightarrow> bool list \<Rightarrow> BlobFileMeta" where
  "sample_input n bits =
     \<lparr>m_file_number = of_nat n, m_file_size = 1000, m_live_data_size = 500,
      m_live_bitset = bits, m_state = kNormalState\<rparr>"

definition tup :: "string \<Rightarrow> string \<Rightarrow> BlobIndex \<Rightarrow> GcTuple" where
  "tup k v b = \<lparr>t_key = k, t_value = v, t_blob_index = b\<rparr>"

text \<open>
  Two input files with one live record each: key \<open>''a''\<close> in file 1 and key \<open>''b''\<close> in
  file 2, each with a value of 12 bytes, and an LSM that points at exactly these records.
\<close>

definition lsm_ab :: "nat \<Rightarrow> DB" where
  "lsm_ab i k = (if k = ''a'' then get_index ''A'' 0 else get_index ''B'' 0)"

definition two_files :: "BlobFileMeta list" where
  "two_files = [sample_input 1 [True], sample_input 2 [True]]"

definition two_records :: "GcTuple list" where
  "two_records = [tup ''a'' ''0123456789ab'' (bi 1 0 10 0), tup ''b'' ''0123456789ab'' (bi 2 0 10 0)]"

text \<open>
  The job as the scan of these two records leaves it in normal mode (one output file,
  number 100, holding both records, and one queued batch per key), and in fallback mode
  (no output file, one queued batch per key with an empty new blob index).
\<close>

definition scanned_job :: Job where
  "scanned_job =
     snd (projr (Run (sample_env\<lparr>GetImpl_scan := lsm_ab\<rparr>) sample_opts two_files two_records
                   init_job))"

definition scanned_job_fallback :: Job where
  "scanned_job_fallback =
     snd (projr (Run (sample_env\<lparr>GetImpl_scan := lsm_ab\<rparr>)
                   (sample_opts\<lparr>blob_run_mode := kFallback\<rparr>) two_files two_records init_job))"

text \<open>
  An engine in which every key has been deleted by the time its batch is applied, so that
  every write of the job loses the race, and the job of above in normal mode after its
  output file has been installed.
\<close>

definition raced_env :: Env where
  "raced_env = sample_env\<lparr>GetImpl_commit := \<lambda>i k. get_missing\<rparr>"

definition installed_job :: Job where
  "installed_job =
     snd (projr (InstallOutputBlobFiles raced_env (emit [EvMutexUnlock] scanned_job)))"

section \<open>Theorems\<close>

subsection \<open>The callback's decision table\<close>

lemma Callback_lookup_error:
  "\<not> ok (g_status (db (cb_key cb))) \<Longrightarrow> \<not> IsNotFound (g_status (db (cb_key cb))) \<Longrightarrow>
   fst (Callback dec db cb) = g_status (db (cb_key cb))"
  by (simp add: Callback_def Let_def)

lemma Callback_missing:
  "IsNotFound (g_status (db (cb_key cb))) \<Longrightarrow>
   fst (Callback dec db cb) = Busy ''key deleted''"
  by (simp add: Callback_def Let_def ok_def)

lemma Callback_inline:
  "g_status (db (cb_key cb)) = OK \<Longrightarrow> \<not> g_is_blob_index (db (cb_key cb)) \<Longrightarrow>
   fst (Callback dec db cb) = Busy ''key overwritten with other value''"
  by (simp add: Callback_def Let_def ok_def)

lemma Callback_index:
  "g_status (db (cb_key cb)) = OK \<Longrightarrow> g_is_blob_index (db (cb_key cb)) \<Longrightarrow>
   fst (Callback dec db cb) =
     (let r = dec (g_value (db (cb_key cb)))
      in if \<not> ok (fst r) then fst r
         else if \<not> blob_index_eq (cb_blob_index cb) (snd r)
           then Busy ''key overwritten with other blob''
         else OK)"
  by (simp add: Callback_def Let_def ok_def split: prod.splits)

text \<open>
  C1. At commit time the callback re-reads the current value of its user key with the
  \<^verbatim>\<open>is_blob_index\<close> flag preserved and answers: \<open>Busy ''key deleted''\<close> when the key is
  missing; \<open>Busy ''key overwritten with other value''\<close> when a value exists but is not a
  blob index; \<open>Busy ''key overwritten with other blob''\<close> when the blob index decodes but
  differs from the scanned one; \<open>OK\<close> when the decoded index equals the scanned one in
  all four fields; the lookup's own status when the lookup fails with anything other
  than NotFound; and the decoder's status when the blob index does not decode.
\<close>

theorem Callback_decision_table:
  fixes dec :: Decoder and db :: DB and cb :: GarbageCollectionWriteCallback
  defines "g \<equiv> db (cb_key cb)"
  defines "r \<equiv> fst (Callback dec db cb)"
  shows
    "(IsNotFound (g_status g) \<longrightarrow> r = Busy ''key deleted'') \<and>
     (g_status g = OK \<and> \<not> g_is_blob_index g \<longrightarrow>
        r = Busy ''key overwritten with other value'') \<and>
     (g_status g = OK \<and> g_is_blob_index g \<and> fst (dec (g_value g)) = OK \<and>
      \<not> (file_number (snd (dec (g_value g))) = file_number (cb_blob_index cb) \<and>
         blob_handle (snd (dec (g_value g))) = blob_handle (cb_blob_index cb)) \<longrightarrow>
        r = Busy ''key overwritten with other blob'') \<and>
     (g_status g = OK \<and> g_is_blob_index g \<and> fst (dec (g_value g)) = OK \<and>
      file_number (snd (dec (g_value g))) = file_number (cb_blob_index cb) \<and>
      blob_handle (snd (dec (g_value g))) = blob_handle (cb_blob_index cb) \<longrightarrow>
        r = OK) \<and>
     (g_status g \<noteq> OK \<and> \<not> IsNotFound (g_status g) \<longrightarrow> r = g_status g) \<and>
     (g_status g = OK \<and> g_is_blob_index g \<and> fst (dec (g_value g)) \<noteq> OK \<longrightarrow>
        r = fst (dec (g_value g)))"
proof -
  have eq: "blob_index_eq a b = (file_number a = file_number b \<and> blob_handle a = blob_handle b)"
    for a b :: BlobIndex
    by (cases "blob_handle a"; cases "blob_handle b") (auto simp: blob_index_eq_def)
  show ?thesis
    unfolding g_def r_def
    using Callback_lookup_error [of db cb dec] Callback_missing [of db cb dec]
      Callback_inline [of db cb dec] Callback_index [of db cb dec]
    by (auto simp: ok_def Let_def eq)
qed

theorem Callback_decision_table_witness:
  "IsNotFound (g_status get_missing) \<and>
   fst (Callback sample_decode (\<lambda>k. get_missing) sample_cb) = Busy ''key deleted'' \<and>
   fst (Callback sample_decode (\<lambda>k. get_inline) sample_cb) =
     Busy ''key overwritten with other value'' \<and>
   fst (Callback sample_decode (\<lambda>k. get_index ''B'' 3) sample_cb) =
     Busy ''key overwritten with other blob'' \<and>
   fst (Callback sample_decode (\<lambda>k. get_index ''A'' 3) sample_cb) = OK \<and>
   fst (Callback sample_decode (\<lambda>k. get_error) sample_cb) = IOError ''read'' \<and>
   fst (Callback sample_decode (\<lambda>k. get_index ''C'' 3) sample_cb) =
     Corruption ''bad blob index''"
  using Callback_decision_table [of "\<lambda>k. get_missing" sample_cb sample_decode]
    Callback_decision_table [of "\<lambda>k. get_inline" sample_cb sample_decode]
    Callback_decision_table [of "\<lambda>k. get_index ''B'' 3" sample_cb sample_decode]
    Callback_decision_table [of "\<lambda>k. get_index ''A'' 3" sample_cb sample_decode]
    Callback_decision_table [of "\<lambda>k. get_error" sample_cb sample_decode]
    Callback_decision_table [of "\<lambda>k. get_index ''C'' 3" sample_cb sample_decode]
  by (simp add: get_missing_def get_inline_def get_index_def get_error_def sample_decode_def
      sample_cb_def bi_def BlobIndex0_def)

lemmas run_defs =
  scan_step_def classify_and_rewrite_def classify_def DiscardEntryWithBitset_def
  DiscardEntry_def find_input_def IsLiveData_def rewrite_live_def fallback_rewrite_def
  open_output_def roll_output_def add_record_def shadow_rewrite_def open_shadow_def
  lsm_rewrite_def emit_def upd_metrics_def blob_index_eq_def ok_def Let_def
  init_locals_def init_job_def scheduled_keys_def
  DoRunGC_def Run_def BuildIterator_def after_loop_def keep_last_output_def

lemmas sample_defs = sample_env_def sample_opts_def sample_input_def tup_def bi_def
  get_missing_def get_inline_def get_index_def get_error_def sample_decode_def
  sample_parse_def sample_add_def BlobIndex0_def sample_cb_def lsm_ab_def two_files_def
  two_records_def scanned_job_def scanned_job_fallback_def

lemmas finish_defs =
  Finish_def InstallOutputBlobFiles_def publish_def WriteWithCallback_def Callback_def
  RewriteValidKeyToLSM_def InstallOutputShadows_def DeleteInputBlobFiles_def is_obsolete_def
  InitLiveDataBitset_def SetLiveDataBitset_def UpdateLiveDataSize_def blob_record_size_def

subsection \<open>Two-level classification\<close>

lemma classify_bit_clear:
  "find_input inputs (file_number (t_blob_index t)) = Some f \<Longrightarrow>
   \<not> IsLiveData f (order' (blob_handle (t_blob_index t))) \<Longrightarrow>
   classify env inputs i t j = (OK, True, -1, j)"
  by (simp add: classify_def DiscardEntryWithBitset_def ok_def)

lemma classify_bit_set:
  "find_input inputs (file_number (t_blob_index t)) = Some f \<Longrightarrow>
   IsLiveData f (order' (blob_handle (t_blob_index t))) \<Longrightarrow>
   classify env inputs i t j = DiscardEntry env i (t_key t) (t_blob_index t) False j"
  by (simp add: classify_def DiscardEntryWithBitset_def ok_def)

lemma DiscardEntry_lookup:
  "DiscardEntry env i key b d j = (st, d', lv, j') \<Longrightarrow>
   lv = g_level (GetImpl_scan env i key) \<and> trace j' = trace j @ [EvGetImpl key]"
  by (auto simp: DiscardEntry_def Let_def emit_def upd_metrics_def split: if_splits prod.splits)

lemma DiscardEntry_gone:
  "IsNotFound (g_status (GetImpl_scan env i key)) \<or>
   (g_status (GetImpl_scan env i key) = OK \<and> \<not> g_is_blob_index (GetImpl_scan env i key)) \<Longrightarrow>
   DiscardEntry env i key b d j = (st, d', lv, j') \<Longrightarrow> st = OK \<and> d'"
  by (auto simp: DiscardEntry_def Let_def ok_def split: if_splits prod.splits)

lemma DiscardEntry_index:
  "g_status (GetImpl_scan env i key) = OK \<Longrightarrow> g_is_blob_index (GetImpl_scan env i key) \<Longrightarrow>
   fst (DecodeFrom env (g_value (GetImpl_scan env i key))) = OK \<Longrightarrow>
   DiscardEntry env i key b d j = (st, d', lv, j') \<Longrightarrow>
   st = OK \<and> d' = (\<not> blob_index_eq b (snd (DecodeFrom env (g_value (GetImpl_scan env i key)))))"
  by (auto simp: DiscardEntry_def Let_def ok_def split: if_splits prod.splits)

text \<open>
  C3. A scanned record that reaches classification (it was not skipped as an older
  version) and whose source file \<open>f\<close> is among the inputs is classified in two levels.
  If the liveness bit of \<open>f\<close> at the record's order is clear, the record is discardable
  and the job is unchanged: no lookup is made, whatever the LSM holds. Otherwise exactly
  one point lookup is made and decides: NotFound, or a value that is not a blob index,
  makes the record discardable; a decoded blob index that differs from the scanned one
  makes it discardable; an equal one makes it live. In each of these cases the level
  handed back is the level the lookup returned.
\<close>

theorem classify_two_level:
  fixes env :: Env and t :: GcTuple and i :: nat
  defines "g \<equiv> GetImpl_scan env i (t_key t)"
  defines "other \<equiv> snd (DecodeFrom env (g_value g))"
  assumes found: "find_input inputs (file_number (t_blob_index t)) = Some f"
  shows
    "(\<not> IsLiveData f (order' (blob_handle (t_blob_index t))) \<longrightarrow>
        classify env inputs i t j = (OK, True, -1, j)) \<and>
     (IsLiveData f (order' (blob_handle (t_blob_index t))) \<longrightarrow>
        (case classify env inputs i t j of
           (st, discardable, level, j') \<Rightarrow>
             trace j' = trace j @ [EvGetImpl (t_key t)] \<and>
             level = g_level g \<and>
             (IsNotFound (g_status g) \<or> (g_status g = OK \<and> \<not> g_is_blob_index g) \<longrightarrow>
                st = OK \<and> discardable) \<and>
             (g_status g = OK \<and> g_is_blob_index g \<and> fst (DecodeFrom env (g_value g)) = OK \<and>
              \<not> blob_index_eq (t_blob_index t) other \<longrightarrow>
                st = OK \<and> discardable) \<and>
             (g_status g = OK \<and> g_is_blob_index g \<and> fst (DecodeFrom env (g_value g)) = OK \<and>
              blob_index_eq (t_blob_index t) other \<longrightarrow>
                st = OK \<and> \<not> discardable)))"
proof (intro conjI impI)
  assume "\<not> IsLiveData f (order' (blob_handle (t_blob_index t)))"
  with found show "classify env inputs i t j = (OK, True, -1, j)"
    by (rule classify_bit_clear)
next
  assume live: "IsLiveData f (order' (blob_handle (t_blob_index t)))"
  obtain st d lv j' where r: "classify env inputs i t j = (st, d, lv, j')"
    by (cases "classify env inputs i t j") auto
  with classify_bit_set [OF found live]
  have de: "DiscardEntry env i (t_key t) (t_blob_index t) False j = (st, d, lv, j')"
    by simp
  show "case classify env inputs i t j of
           (st, discardable, level, j') \<Rightarrow>
             trace j' = trace j @ [EvGetImpl (t_key t)] \<and>
             level = g_level g \<and>
             (IsNotFound (g_status g) \<or> (g_status g = OK \<and> \<not> g_is_blob_index g) \<longrightarrow>
                st = OK \<and> discardable) \<and>
             (g_status g = OK \<and> g_is_blob_index g \<and> fst (DecodeFrom env (g_value g)) = OK \<and>
              \<not> blob_index_eq (t_blob_index t) other \<longrightarrow>
                st = OK \<and> discardable) \<and>
             (g_status g = OK \<and> g_is_blob_index g \<and> fst (DecodeFrom env (g_value g)) = OK \<and>
              blob_index_eq (t_blob_index t) other \<longrightarrow>
                st = OK \<and> \<not> discardable)"
    unfolding r g_def other_def
    using DiscardEntry_lookup [OF de] DiscardEntry_gone [OF _ de] DiscardEntry_index [OF _ _ _ de]
    by auto
qed

theorem classify_two_level_witness:
  "classify sample_env [sample_input 1 [False]] 0 (tup ''k'' ''v'' (bi 1 0 10 0)) init_job
     = (OK, True, -1, init_job) \<and>
   (case classify (sample_env\<lparr>GetImpl_scan := \<lambda>i k. get_missing\<rparr>) [sample_input 1 [True]] 0
           (tup ''k'' ''v'' (bi 1 0 10 0)) init_job of
      (st, discardable, level, j') \<Rightarrow>
        st = OK \<and> discardable \<and> level = -1 \<and> trace j' = [EvGetImpl ''k'']) \<and>
   (case classify (sample_env\<lparr>GetImpl_scan := \<lambda>i k. get_inline\<rparr>) [sample_input 1 [True]] 0
           (tup ''k'' ''v'' (bi 1 0 10 0)) init_job of
      (st, discardable, level, j') \<Rightarrow> st = OK \<and> discardable) \<and>
   (case classify (sample_env\<lparr>GetImpl_scan := \<lambda>i k. get_index ''B'' 3\<rparr>) [sample_input 1 [True]] 0
           (tup ''k'' ''v'' (bi 1 0 10 0)) init_job of
      (st, discardable, level, j') \<Rightarrow> st = OK \<and> discardable \<and> level = 3) \<and>
   (case classify (sample_env\<lparr>GetImpl_scan := \<lambda>i k. get_index ''A'' 3\<rparr>) [sample_input 1 [True]] 0
           (tup ''k'' ''v'' (bi 1 0 10 0)) init_job of
      (st, discardable, level, j') \<Rightarrow>
        st = OK \<and> \<not> discardable \<and> level = 3 \<and> trace j' = [EvGetImpl ''k''])"
  using
    classify_two_level [of "[sample_input 1 [False]]" "tup ''k'' ''v'' (bi 1 0 10 0)"
      "sample_input 1 [False]" sample_env 0 init_job]
    classify_two_level [of "[sample_input 1 [True]]" "tup ''k'' ''v'' (bi 1 0 10 0)"
      "sample_input 1 [True]" "sample_env\<lparr>GetImpl_scan := \<lambda>i k. get_missing\<rparr>" 0 init_job]
    classify_two_level [of "[sample_input 1 [True]]" "tup ''k'' ''v'' (bi 1 0 10 0)"
      "sample_input 1 [True]" "sample_env\<lparr>GetImpl_scan := \<lambda>i k. get_inline\<rparr>" 0 init_job]
    classify_two_level [of "[sample_input 1 [True]]" "tup ''k'' ''v'' (bi 1 0 10 0)"
      "sample_input 1 [True]" "sample_env\<lparr>GetImpl_scan := \<lambda>i k. get_index ''B'' 3\<rparr>" 0 init_job]
    classify_two_level [of "[sample_input 1 [True]]" "tup ''k'' ''v'' (bi 1 0 10 0)"
      "sample_input 1 [True]" "sample_env\<lparr>GetImpl_scan := \<lambda>i k. get_index ''A'' 3\<rparr>" 0 init_job]
  by (simp add: sample_defs find_input_def IsLiveData_def init_job_def blob_index_eq_def
      split: prod.splits)

subsection \<open>Older versions of a key\<close>

lemma scan_step_skip:
  "t_key t = last_key l \<Longrightarrow> last_key_is_fresh l \<Longrightarrow> t_key t \<noteq> [] \<Longrightarrow>
   \<not> IsShutingDown_scan env i \<Longrightarrow>
   scan_step env opts inputs i t l j =
     Inr (Continue, l\<lparr>total_count := total_count l + 1\<rparr>,
          upd_metrics (\<lambda>m. m\<lparr>gc_bytes_read_blob :=
             gc_bytes_read_blob m + size' (blob_handle (t_blob_index t))\<rparr>) j)"
  by (simp add: scan_step_def Let_def)

lemma scan_step_shutdown:
  "IsShutingDown_scan env i \<Longrightarrow>
   scan_step env opts inputs i t l j =
     Inr (Break, l\<lparr>total_count := total_count l + 1, loop_s := ShutdownInProgress\<rparr>, j)"
  by (simp add: scan_step_def Let_def)

lemma blob_added_keys_append [simp]:
  "blob_added_keys (xs @ ys) = blob_added_keys xs @ blob_added_keys ys"
  by (induction xs rule: blob_added_keys.induct) auto

lemma BatchWriteNewIndices_trace:
  "BatchWriteNewIndices env cs st j = Inr (st', j') \<Longrightarrow> trace j' = trace j"
  by (induction env cs st j rule: BatchWriteNewIndices.induct)
     (auto simp: Let_def split: prod.splits if_splits)

lemma classify_frame:
  "classify env inputs i t j = (st, d, lv, j') \<Longrightarrow>
   rewrite_batches j' = rewrite_batches j \<and> blob_file_builders j' = blob_file_builders j \<and>
   blob_added_keys (trace j') = blob_added_keys (trace j)"
  by (auto simp: classify_def DiscardEntryWithBitset_def DiscardEntry_def Let_def emit_def
        upd_metrics_def split: option.splits if_splits prod.splits)

lemma classify_scheduled:
  "classify env inputs i t j = (st, d, lv, j') \<Longrightarrow> scheduled_keys opts j' = scheduled_keys opts j"
  by (auto simp: scheduled_keys_def dest: classify_frame)

lemma fallback_rewrite_frame:
  "fallback_rewrite env t l j = Inr (ctl, l', j') \<Longrightarrow>
   last_key l' = last_key l \<and> last_key_is_fresh l' = last_key_is_fresh l \<and>
   valid_count l' = valid_count l \<and> discardable_count l' = discardable_count l \<and>
   trace j' = trace j \<and>
   map (\<lambda>b. cb_key (snd b)) (rewrite_batches j') =
     map (\<lambda>b. cb_key (snd b)) (rewrite_batches j) @ [t_key t]"
  by (auto simp: fallback_rewrite_def Let_def split: if_splits)

lemma open_output_frame:
  "open_output env opts i l j = Inr (brk, l', j') \<Longrightarrow>
   last_key l' = last_key l \<and> last_key_is_fresh l' = last_key_is_fresh l \<and>
   valid_count l' = valid_count l \<and> discardable_count l' = discardable_count l \<and>
   blob_added_keys (trace j') = blob_added_keys (trace j) \<and>
   rewrite_batches j' = rewrite_batches j"
  by (auto simp: open_output_def roll_output_def emit_def Let_def
        split: if_splits prod.splits sum.splits)

lemma add_record_frame:
  "add_record env t l j = Inr (cs, l', j') \<Longrightarrow>
   last_key l' = last_key l \<and> last_key_is_fresh l' = last_key_is_fresh l \<and>
   valid_count l' = valid_count l \<and> discardable_count l' = discardable_count l \<and>
   blob_added_keys (trace j') = blob_added_keys (trace j) @ [t_key t] \<and>
   rewrite_batches j' = rewrite_batches j"
  by (auto simp: add_record_def emit_def upd_metrics_def Let_def split: option.splits)

lemma shadow_rewrite_frame:
  "shadow_rewrite env opts i lv cs l j = Inr (l', j') \<Longrightarrow>
   last_key l' = last_key l \<and> last_key_is_fresh l' = last_key_is_fresh l \<and>
   valid_count l' = valid_count l \<and> discardable_count l' = discardable_count l \<and>
   blob_added_keys (trace j') = blob_added_keys (trace j) \<and>
   rewrite_batches j' = rewrite_batches j"
  by (auto simp: shadow_rewrite_def open_shadow_def emit_def Let_def
        split: if_splits prod.splits option.splits)

lemma lsm_rewrite_frame:
  "lsm_rewrite env cs l j = Inr (l', j') \<Longrightarrow>
   last_key l' = last_key l \<and> last_key_is_fresh l' = last_key_is_fresh l \<and>
   valid_count l' = valid_count l \<and> discardable_count l' = discardable_count l \<and>
   blob_added_keys (trace j') = blob_added_keys (trace j)"
  by (auto simp: lsm_rewrite_def split: sum.splits dest: BatchWriteNewIndices_trace)


lemma rewrite_live_frame:
  assumes "rewrite_live env opts i t lv l j = Inr (ctl, l', j')"
  shows "last_key l' = last_key l \<and> last_key_is_fresh l' = last_key_is_fresh l \<and>
         valid_count l' = valid_count l \<and> discardable_count l' = discardable_count l \<and>
         (scheduled_keys opts j' = scheduled_keys opts j @ [t_key t] \<or>
          (scheduled_keys opts j' = scheduled_keys opts j \<and> ctl = Break))"
proof (cases "blob_run_mode opts = kFallback")
  case True
  with assms have "fallback_rewrite env t l j = Inr (ctl, l', j')"
    by (simp add: rewrite_live_def)
  from fallback_rewrite_frame [OF this] True show ?thesis
    by (simp add: scheduled_keys_def)
next
  case False
  with assms obtain brk l1 j1 where
    oo: "open_output env opts i l j = Inr (brk, l1, j1)"
    by (auto simp: rewrite_live_def split: sum.splits)
  note f1 = open_output_frame [OF oo]
  show ?thesis
  proof (cases brk)
    case True
    with assms False oo have "ctl = Break" "l' = l1" "j' = j1"
      by (auto simp: rewrite_live_def)
    with f1 False show ?thesis by (simp add: scheduled_keys_def)
  next
    case nb: False
    with assms False oo obtain cs l2 j2 where
      ar: "add_record env t l1 j1 = Inr (cs, l2, j2)"
      by (auto simp: rewrite_live_def split: sum.splits)
    note f2 = add_record_frame [OF ar]
    from assms False oo nb ar obtain l3 j3 where
      rw: "(if rewrite_shadow opts then shadow_rewrite env opts i lv cs l2 j2
            else lsm_rewrite env cs l2 j2) = Inr (l3, j3)"
      and eq: "l' = l3" "j' = j3"
      by (auto simp: rewrite_live_def split: sum.splits)
    have f3: "last_key l3 = last_key l2 \<and> last_key_is_fresh l3 = last_key_is_fresh l2 \<and>
       valid_count l3 = valid_count l2 \<and> discardable_count l3 = discardable_count l2 \<and>
       blob_added_keys (trace j3) = blob_added_keys (trace j2)"
      using rw shadow_rewrite_frame [of env opts i lv cs l2 j2 l3 j3]
        lsm_rewrite_frame [of env cs l2 j2 l3 j3]
      by (auto split: if_splits)
    from f1 f2 f3 eq False show ?thesis by (simp add: scheduled_keys_def)
  qed
qed

lemma classify_and_rewrite_frame:
  assumes "classify_and_rewrite env opts inputs i t l j = Inr (ctl, l', j')"
  shows "last_key l' = last_key l \<and>
     ((valid_count l' = valid_count l \<and> last_key_is_fresh l' = last_key_is_fresh l \<and>
       scheduled_keys opts j' = scheduled_keys opts j) \<or>
      (valid_count l' = valid_count l + 1 \<and> last_key_is_fresh l' \<and>
       (scheduled_keys opts j' = scheduled_keys opts j @ [t_key t] \<or>
        (scheduled_keys opts j' = scheduled_keys opts j \<and> ctl = Break))))"
proof -
  obtain cs d lv j1 where c: "classify env inputs i t j = (cs, d, lv, j1)"
    by (cases "classify env inputs i t j") auto
  note sc = classify_scheduled [OF c, of opts]
  show ?thesis
  proof (cases "\<not> ok cs \<or> d")
    case True
    with assms c sc show ?thesis
      by (auto simp: classify_and_rewrite_def upd_metrics_def scheduled_keys_def
            split: if_splits)
  next
    case False
    with assms c have
      "rewrite_live env opts i t lv
         (l\<lparr>loop_s := cs, valid_count := valid_count l + 1, last_key_is_fresh := True\<rparr>) j1
       = Inr (ctl, l', j')"
      by (simp add: classify_and_rewrite_def)
    from rewrite_live_frame [OF this] sc show ?thesis by simp
  qed
qed

lemma scan_step_summary:
  assumes "scan_step env opts inputs i t l j = Inr (ctl, l', j')"
  shows
    "(last_key l' = last_key l \<and> last_key_is_fresh l' = last_key_is_fresh l \<and>
      valid_count l' = valid_count l \<and> scheduled_keys opts j' = scheduled_keys opts j) \<or>
     (\<not> (t_key t = last_key l \<and> last_key_is_fresh l \<and> t_key t \<noteq> []) \<and>
      last_key l' = t_key t \<and>
      ((valid_count l' = valid_count l \<and> \<not> last_key_is_fresh l' \<and>
        scheduled_keys opts j' = scheduled_keys opts j) \<or>
       (valid_count l' = valid_count l + 1 \<and> last_key_is_fresh l' \<and>
        (scheduled_keys opts j' = scheduled_keys opts j @ [t_key t] \<or>
         (scheduled_keys opts j' = scheduled_keys opts j \<and> ctl = Break)))))"
proof -
  let ?j1 = "upd_metrics (\<lambda>m. m\<lparr>gc_bytes_read_blob :=
               gc_bytes_read_blob m + size' (blob_handle (t_blob_index t))\<rparr>) j"
  let ?l1 = "l\<lparr>total_count := total_count l + 1\<rparr>"
  have sk: "scheduled_keys opts ?j1 = scheduled_keys opts j"
    by (simp add: scheduled_keys_def upd_metrics_def)
  consider (shut) "IsShutingDown_scan env i"
    | (skip) "\<not> IsShutingDown_scan env i" "last_key l \<noteq> []" "t_key t = last_key l"
        "last_key_is_fresh l"
    | (same) "\<not> IsShutingDown_scan env i" "last_key l \<noteq> []" "t_key t = last_key l"
        "\<not> last_key_is_fresh l"
    | (other) "\<not> IsShutingDown_scan env i" "\<not> (last_key l \<noteq> [] \<and> t_key t = last_key l)"
    by blast
  then show ?thesis
  proof cases
    case shut
    with assms show ?thesis by (auto simp: scan_step_def Let_def)
  next
    case skip
    with assms sk show ?thesis by (auto simp: scan_step_def Let_def)
  next
    case same
    with assms have "classify_and_rewrite env opts inputs i t ?l1 ?j1 = Inr (ctl, l', j')"
      by (simp add: scan_step_def Let_def)
    from classify_and_rewrite_frame [OF this] same sk show ?thesis by auto
  next
    case other
    with assms have
      "classify_and_rewrite env opts inputs i t
         (?l1\<lparr>last_key := t_key t, last_key_is_fresh := False\<rparr>) ?j1 = Inr (ctl, l', j')"
      by (auto simp: scan_step_def Let_def)
    from classify_and_rewrite_frame [OF this] other sk show ?thesis by auto
  qed
qed


lemma adjacent_keys_tail:
  "adjacent_keys (k # ks) \<Longrightarrow> k \<in> set ks \<Longrightarrow> hd ks = k"
  by (simp split: if_splits)

lemma scan_loop_distinct:
  assumes "scan_loop env opts inputs i ts l j = Inr (l', j')"
    and "adjacent_keys (map t_key ts)" and "[] \<notin> set (map t_key ts)"
    and "distinct (scheduled_keys opts j)"
    and "\<And>k. k \<in> set (scheduled_keys opts j) \<Longrightarrow> k \<in> set (map t_key ts) \<Longrightarrow>
            k = last_key l \<and> last_key_is_fresh l"
    and "last_key l \<in> set (map t_key ts) \<Longrightarrow> hd (map t_key ts) = last_key l"
  shows "distinct (scheduled_keys opts j')"
  using assms
proof (induction ts arbitrary: i l j)
  case Nil
  then show ?case by simp
next
  case (Cons t ts)
  from Cons.prems(1) obtain ctl l1 j1 where
    st: "scan_step env opts inputs i t l j = Inr (ctl, l1, j1)"
    by (auto split: sum.splits)
  note sm = scan_step_summary [OF st]
  have ne: "t_key t \<noteq> []" using Cons.prems(3) by auto
  have notin: "t_key t \<notin> set (scheduled_keys opts j)"
    if "\<not> (t_key t = last_key l \<and> last_key_is_fresh l \<and> t_key t \<noteq> [])"
    using Cons.prems(5) [of "t_key t"] that ne by auto
  have d1: "distinct (scheduled_keys opts j1)"
    using sm Cons.prems(4) notin by auto
  show ?case
  proof (cases ctl)
    case Break
    with Cons.prems(1) st d1 show ?thesis by simp
  next
    case Continue
    with Cons.prems(1) st have lp: "scan_loop env opts inputs (Suc i) ts l1 j1 = Inr (l', j')"
      by simp
    have adj: "adjacent_keys (map t_key ts)" using Cons.prems(2) by simp
    have nem: "[] \<notin> set (map t_key ts)" using Cons.prems(3) by simp
    have old: "k = t_key t \<and> k = last_key l \<and> last_key_is_fresh l"
      if "k \<in> set (scheduled_keys opts j)" "k \<in> set (map t_key ts)" for k
    proof -
      from that Cons.prems(5) [of k] have a: "k = last_key l" "last_key_is_fresh l" by auto
      with that have "last_key l \<in> set (map t_key (t # ts))" by simp
      from Cons.prems(6) [OF this] a show ?thesis by simp
    qed
    have inv: "k = last_key l1 \<and> last_key_is_fresh l1"
      if "k \<in> set (scheduled_keys opts j1)" "k \<in> set (map t_key ts)" for k
      using sm that old [of k] ne by auto
    have hd: "hd (map t_key ts) = last_key l1" if "last_key l1 \<in> set (map t_key ts)"
    proof -
      have "last_key l1 = t_key t"
        using sm that Cons.prems(6) by auto
      with that Cons.prems(2) show ?thesis
        using adjacent_keys_tail [of "t_key t" "map t_key ts"] by simp
    qed
    from Cons.IH [OF lp adj nem d1 inv hd] show ?thesis by simp
  qed
qed


text \<open>
  C4, as the code has it. A scanned record whose user key is not empty and equals
  \<^verbatim>\<open>last_key\<close> while \<^verbatim>\<open>last_key_is_fresh\<close> holds is passed over: the iteration changes
  nothing but \<^verbatim>\<open>total_count\<close> and the blob bytes read (or, when the job is shutting
  down, \<^verbatim>\<open>total_count\<close> and the status), so the record is neither classified nor
  rewritten, no lookup is made and no batch is queued. In every iteration
  \<^verbatim>\<open>last_key_is_fresh\<close> is set exactly when the record is classified live
  (\<^verbatim>\<open>valid_count\<close> is incremented at that one place): either the record is counted
  live and the flag holds afterwards, or it is not counted and the flag does not turn
  from false to true. Hence, when the iterator yields the versions of each key one after
  the other and no key is empty, a scan from the initial state schedules at most one
  version per user key for rewrite.
\<close>

theorem newest_version_only:
  "(t_key t = last_key l \<and> last_key_is_fresh l \<and> t_key t \<noteq> [] \<longrightarrow>
      scan_step env opts inputs i t l j =
        (if IsShutingDown_scan env i
           then Inr (Break, l\<lparr>total_count := total_count l + 1, loop_s := ShutdownInProgress\<rparr>, j)
         else Inr (Continue, l\<lparr>total_count := total_count l + 1\<rparr>,
                   upd_metrics (\<lambda>m. m\<lparr>gc_bytes_read_blob :=
                      gc_bytes_read_blob m + size' (blob_handle (t_blob_index t))\<rparr>) j))) \<and>
   (scan_step env opts inputs i t l j = Inr (ctl, l1, j1) \<longrightarrow>
      (valid_count l1 = valid_count l + 1 \<and> last_key_is_fresh l1) \<or>
      (valid_count l1 = valid_count l \<and> (last_key_is_fresh l1 \<longrightarrow> last_key_is_fresh l))) \<and>
   (adjacent_keys (map t_key ts) \<and> [] \<notin> set (map t_key ts) \<and> scheduled_keys opts j0 = [] \<and>
    scan_loop env opts inputs 0 ts init_locals j0 = Inr (l2, j2) \<longrightarrow>
      distinct (scheduled_keys opts j2))"
proof (intro conjI impI)
  assume "t_key t = last_key l \<and> last_key_is_fresh l \<and> t_key t \<noteq> []"
  then show "scan_step env opts inputs i t l j =
        (if IsShutingDown_scan env i
           then Inr (Break, l\<lparr>total_count := total_count l + 1, loop_s := ShutdownInProgress\<rparr>, j)
         else Inr (Continue, l\<lparr>total_count := total_count l + 1\<rparr>,
                   upd_metrics (\<lambda>m. m\<lparr>gc_bytes_read_blob :=
                      gc_bytes_read_blob m + size' (blob_handle (t_blob_index t))\<rparr>) j))"
    using scan_step_skip [of t l env i opts inputs j] scan_step_shutdown [of env i opts inputs t l j]
    by (cases "IsShutingDown_scan env i") auto
next
  assume "scan_step env opts inputs i t l j = Inr (ctl, l1, j1)"
  from scan_step_summary [OF this]
  show "(valid_count l1 = valid_count l + 1 \<and> last_key_is_fresh l1) \<or>
      (valid_count l1 = valid_count l \<and> (last_key_is_fresh l1 \<longrightarrow> last_key_is_fresh l))"
    by auto
next
  assume a: "adjacent_keys (map t_key ts) \<and> [] \<notin> set (map t_key ts) \<and>
    scheduled_keys opts j0 = [] \<and>
    scan_loop env opts inputs 0 ts init_locals j0 = Inr (l2, j2)"
  show "distinct (scheduled_keys opts j2)"
  proof (rule scan_loop_distinct)
    show "scan_loop env opts inputs 0 ts init_locals j0 = Inr (l2, j2)" using a by simp
    show "adjacent_keys (map t_key ts)" using a by simp
    show "[] \<notin> set (map t_key ts)" using a by simp
    show "distinct (scheduled_keys opts j0)" using a by simp
    show "k = last_key init_locals \<and> last_key_is_fresh init_locals"
      if "k \<in> set (scheduled_keys opts j0)" for k
      using that a by simp
    show "hd (map t_key ts) = last_key init_locals"
      if "last_key init_locals \<in> set (map t_key ts)"
      using that a by (simp add: init_locals_def)
  qed
qed


text \<open>
  C4 as stated does not hold for the empty user key: line 238 takes an empty
  \<^verbatim>\<open>last_key\<close> for "no key seen yet". In fallback mode, with assertions compiled out,
  after a live record with the empty key \<^verbatim>\<open>last_key\<close> equals the key of the next record
  and \<^verbatim>\<open>last_key_is_fresh\<close> holds, yet the next record with the empty key is not
  skipped: it is looked up in the LSM and counted discardable.
\<close>

theorem empty_key_not_skipped:
  "last_key (fst (projr (scan_loop sample_env (sample_opts\<lparr>blob_run_mode := kFallback\<rparr>)
       [sample_input 1 [True, True]] 0 [tup [] ''v'' (bi 1 0 10 0)] init_locals init_job)))
     = t_key (tup [] ''w'' (bi 1 10 10 1)) \<and>
   last_key_is_fresh (fst (projr (scan_loop sample_env (sample_opts\<lparr>blob_run_mode := kFallback\<rparr>)
       [sample_input 1 [True, True]] 0 [tup [] ''v'' (bi 1 0 10 0)] init_locals init_job))) \<and>
   scan_step sample_env (sample_opts\<lparr>blob_run_mode := kFallback\<rparr>) [sample_input 1 [True, True]] 1
       (tup [] ''w'' (bi 1 10 10 1))
       (fst (projr (scan_loop sample_env (sample_opts\<lparr>blob_run_mode := kFallback\<rparr>)
          [sample_input 1 [True, True]] 0 [tup [] ''v'' (bi 1 0 10 0)] init_locals init_job)))
       (snd (projr (scan_loop sample_env (sample_opts\<lparr>blob_run_mode := kFallback\<rparr>)
          [sample_input 1 [True, True]] 0 [tup [] ''v'' (bi 1 0 10 0)] init_locals init_job)))
     = Inr (Continue,
            init_locals\<lparr>total_count := 2, valid_count := 1, discardable_count := 1\<rparr>,
            init_job\<lparr>metrics := (metrics init_job)\<lparr>gc_bytes_read_blob := 20,
                          gc_bytes_read_check := 2, gc_num_keys_overwritten_check := 1,
                          gc_bytes_overwritten_check := 10\<rparr>,
                      rewrite_batches := [([Put [] ''v''],
                         \<lparr>cb_key = [], cb_blob_index = bi 1 0 10 0,
                          cb_new_blob_index = BlobIndex0, cb_read_bytes = 0\<rparr>)],
                      trace := [EvGetImpl [], EvGetImpl []]\<rparr>)"
  by (simp add: run_defs sample_defs)


theorem newest_version_only_witness:
  "scan_step sample_env sample_opts [sample_input 1 [True, True]] 5 (tup ''a'' ''u'' (bi 1 10 10 1))
     (init_locals\<lparr>last_key := ''a'', last_key_is_fresh := True\<rparr>) init_job
   = Inr (Continue, init_locals\<lparr>last_key := ''a'', last_key_is_fresh := True, total_count := 1\<rparr>,
          init_job\<lparr>metrics := (metrics init_job)\<lparr>gc_bytes_read_blob := 10\<rparr>\<rparr>) \<and>
   valid_count (fst (snd (projr (scan_step sample_env sample_opts [sample_input 1 [True, True]] 0
     (tup ''a'' ''v'' (bi 1 0 10 0)) init_locals init_job)))) = 1 \<and>
   last_key_is_fresh (fst (snd (projr (scan_step sample_env sample_opts [sample_input 1 [True, True]] 0
     (tup ''a'' ''v'' (bi 1 0 10 0)) init_locals init_job)))) \<and>
   scheduled_keys sample_opts (snd (projr (scan_loop sample_env sample_opts
     [sample_input 1 [True, True]] 0
     [tup ''a'' ''v'' (bi 1 0 10 0), tup ''a'' ''u'' (bi 1 10 10 1), tup ''b'' ''w'' (bi 1 0 10 0)]
     init_locals init_job))) = [''a'', ''b''] \<and>
   distinct (scheduled_keys sample_opts (snd (projr (scan_loop sample_env sample_opts
     [sample_input 1 [True, True]] 0
     [tup ''a'' ''v'' (bi 1 0 10 0), tup ''a'' ''u'' (bi 1 10 10 1), tup ''b'' ''w'' (bi 1 0 10 0)]
     init_locals init_job))))"
  using
    newest_version_only [where t = "tup ''a'' ''u'' (bi 1 10 10 1)"
      and l = "init_locals\<lparr>last_key := ''a'', last_key_is_fresh := True\<rparr>"
      and env = sample_env and opts = sample_opts and inputs = "[sample_input 1 [True, True]]"
      and i = 5 and j = init_job
      and ts = "[tup ''a'' ''v'' (bi 1 0 10 0), tup ''a'' ''u'' (bi 1 10 10 1),
                 tup ''b'' ''w'' (bi 1 0 10 0)]"
      and ?j0.0 = init_job
      and ?l2.0 = "fst (projr (scan_loop sample_env sample_opts
         [sample_input 1 [True, True]] 0
         [tup ''a'' ''v'' (bi 1 0 10 0), tup ''a'' ''u'' (bi 1 10 10 1), tup ''b'' ''w'' (bi 1 0 10 0)]
         init_locals init_job))"
      and ?j2.0 = "snd (projr (scan_loop sample_env sample_opts
         [sample_input 1 [True, True]] 0
         [tup ''a'' ''v'' (bi 1 0 10 0), tup ''a'' ''u'' (bi 1 10 10 1), tup ''b'' ''w'' (bi 1 0 10 0)]
         init_locals init_job))"]
    newest_version_only [where t = "tup ''a'' ''v'' (bi 1 0 10 0)" and l = init_locals
      and env = sample_env and opts = sample_opts and inputs = "[sample_input 1 [True, True]]"
      and i = 0 and j = init_job
      and ctl = "fst (projr (scan_step sample_env sample_opts [sample_input 1 [True, True]] 0
         (tup ''a'' ''v'' (bi 1 0 10 0)) init_locals init_job))"
      and ?l1.0 = "fst (snd (projr (scan_step sample_env sample_opts [sample_input 1 [True, True]] 0
         (tup ''a'' ''v'' (bi 1 0 10 0)) init_locals init_job)))"
      and ?j1.0 = "snd (snd (projr (scan_step sample_env sample_opts [sample_input 1 [True, True]] 0
         (tup ''a'' ''v'' (bi 1 0 10 0)) init_locals init_job)))"]
  by (simp add: run_defs sample_defs)

subsection \<open>The per-level shadow builders\<close>

lemma open_shadow_slot:
  "open_shadow env i lv l j = (False, l1, j1) \<Longrightarrow> nat lv < length (level_shadow_builders l) \<Longrightarrow>
   level_shadow_builders l1 ! nat lv \<noteq> None \<and>
   length (level_shadow_builders l1) = length (level_shadow_builders l)"
  by (auto simp: open_shadow_def Let_def split: option.splits if_splits)

lemma open_shadow_break_slots:
  "open_shadow env i lv l j = (True, l1, j1) \<Longrightarrow>
   length (level_shadow_builders l1) = length (level_shadow_builders l)"
  by (auto simp: open_shadow_def Let_def split: option.splits if_splits)

lemma shadow_rewrite_crash:
  "(shadow_rewrite env opts i lv cs l j = Inl c) =
   (c = OutOfBounds lv \<and> \<not> (0 \<le> lv \<and> lv < int (length (level_shadow_builders l))))"
proof (cases "0 \<le> lv \<and> lv < int (length (level_shadow_builders l))")
  case False
  then show ?thesis by (auto simp: shadow_rewrite_def)
next
  case True
  then have n: "nat lv < length (level_shadow_builders l)" by auto
  obtain brk l1 j1 where os: "open_shadow env i lv l j = (brk, l1, j1)"
    by (cases "open_shadow env i lv l j") auto
  show ?thesis
  proof (cases brk)
    case True
    with os \<open>0 \<le> lv \<and> lv < int (length (level_shadow_builders l))\<close> show ?thesis
      by (simp add: shadow_rewrite_def)
  next
    case False
    with os open_shadow_slot [of env i lv l j l1 j1] n
    obtain b where "level_shadow_builders l1 ! nat lv = Some b" by auto
    with os False True show ?thesis
      by (auto simp: shadow_rewrite_def Let_def split: prod.splits)
  qed
qed

lemma shadow_rewrite_slots:
  "shadow_rewrite env opts i lv cs l j = Inr (l', j') \<Longrightarrow>
   length (level_shadow_builders l') = length (level_shadow_builders l)"
  by (auto simp: shadow_rewrite_def Let_def open_shadow_def
        split: if_splits prod.splits option.splits)

lemma open_output_slots:
  "open_output env opts i l j = Inr (brk, l', j') \<Longrightarrow>
   level_shadow_builders l' = level_shadow_builders l"
  by (auto simp: open_output_def roll_output_def Let_def split: if_splits prod.splits sum.splits)

lemma add_record_slots:
  "add_record env t l j = Inr (cs, l', j') \<Longrightarrow> level_shadow_builders l' = level_shadow_builders l"
  by (auto simp: add_record_def Let_def split: option.splits)

lemma lsm_rewrite_slots:
  "lsm_rewrite env cs l j = Inr (l', j') \<Longrightarrow> level_shadow_builders l' = level_shadow_builders l"
  by (auto simp: lsm_rewrite_def split: sum.splits)

lemma lsm_rewrite_no_oob: "lsm_rewrite env cs l j \<noteq> Inl (OutOfBounds lv)"
proof -
  have "BatchWriteNewIndices env cs st j \<noteq> Inl (OutOfBounds lv)" for st
    by (induction env cs st j rule: BatchWriteNewIndices.induct)
       (auto simp: Let_def split: prod.splits)
  then show ?thesis by (auto simp: lsm_rewrite_def split: sum.splits)
qed

lemma fallback_rewrite_slots:
  "fallback_rewrite env t l j = Inr (ctl, l', j') \<Longrightarrow>
   level_shadow_builders l' = level_shadow_builders l"
  by (auto simp: fallback_rewrite_def Let_def split: if_splits)

lemma rewrite_live_slots:
  "rewrite_live env opts i t lv l j = Inr (ctl, l', j') \<Longrightarrow>
   length (level_shadow_builders l') = length (level_shadow_builders l)"
  by (auto simp: rewrite_live_def split: if_splits sum.splits
        dest!: fallback_rewrite_slots open_output_slots add_record_slots lsm_rewrite_slots
          shadow_rewrite_slots)

lemma rewrite_live_oob:
  assumes "rewrite_live env opts i t lv l j = Inl (OutOfBounds x)"
  shows "rewrite_shadow opts \<and> blob_run_mode opts \<noteq> kFallback \<and> x = lv \<and>
         \<not> (0 \<le> lv \<and> lv < int (length (level_shadow_builders l)))"
proof -
  have fb: "fallback_rewrite env t l j \<noteq> Inl (OutOfBounds x)"
    by (auto simp: fallback_rewrite_def Let_def)
  have oo: "open_output env opts i l j \<noteq> Inl (OutOfBounds x)"
    by (auto simp: open_output_def roll_output_def Let_def split: if_splits prod.splits sum.splits)
  have ar: "add_record env t l1 j1 \<noteq> Inl (OutOfBounds x)" for l1 j1
    by (auto simp: add_record_def Let_def split: option.splits)
  from assms fb have nf: "blob_run_mode opts \<noteq> kFallback"
    by (auto simp: rewrite_live_def)
  with assms oo obtain l1 j1 where o1: "open_output env opts i l j = Inr (False, l1, j1)"
    by (auto simp: rewrite_live_def split: sum.splits if_splits)
  with assms nf ar obtain cs l2 j2 where a1: "add_record env t l1 j1 = Inr (cs, l2, j2)"
    by (auto simp: rewrite_live_def split: sum.splits if_splits)
  from assms nf o1 a1 have
    r: "(if rewrite_shadow opts then shadow_rewrite env opts i lv cs l2 j2
         else lsm_rewrite env cs l2 j2) = Inl (OutOfBounds x)"
    by (auto simp: rewrite_live_def split: sum.splits if_splits)
  with lsm_rewrite_no_oob have sh: "rewrite_shadow opts" by (auto split: if_splits)
  with r have "shadow_rewrite env opts i lv cs l2 j2 = Inl (OutOfBounds x)" by simp
  then have "x = lv \<and> \<not> (0 \<le> lv \<and> lv < int (length (level_shadow_builders l2)))"
    by (simp add: shadow_rewrite_crash)
  with open_output_slots [OF o1] add_record_slots [OF a1] sh nf show ?thesis by simp
qed


lemma classify_live_level:
  "classify env inputs i t j = (cs, False, lv, j1) \<Longrightarrow> ok cs \<Longrightarrow>
   lv = g_level (GetImpl_scan env i (t_key t))"
  by (auto simp: classify_def DiscardEntryWithBitset_def DiscardEntry_def Let_def ok_def
        split: option.splits if_splits prod.splits)

lemma classify_and_rewrite_oob:
  assumes "classify_and_rewrite env opts inputs i t l j = Inl (OutOfBounds x)"
  shows "rewrite_shadow opts \<and> blob_run_mode opts \<noteq> kFallback \<and>
         x = g_level (GetImpl_scan env i (t_key t)) \<and>
         \<not> (0 \<le> x \<and> x < int (length (level_shadow_builders l)))"
proof -
  obtain cs d lv j1 where c: "classify env inputs i t j = (cs, d, lv, j1)"
    by (cases "classify env inputs i t j") auto
  with assms have okc: "ok cs" and nd: "\<not> d"
    by (auto simp: classify_and_rewrite_def split: if_splits)
  with assms c have
    "rewrite_live env opts i t lv
       (l\<lparr>loop_s := cs, valid_count := valid_count l + 1, last_key_is_fresh := True\<rparr>) j1
     = Inl (OutOfBounds x)"
    by (simp add: classify_and_rewrite_def)
  from rewrite_live_oob [OF this] classify_live_level [of env inputs i t j cs lv j1] c okc nd
  show ?thesis by simp
qed

lemma classify_and_rewrite_slots:
  "classify_and_rewrite env opts inputs i t l j = Inr (ctl, l', j') \<Longrightarrow>
   length (level_shadow_builders l') = length (level_shadow_builders l)"
  by (auto simp: classify_and_rewrite_def split: prod.splits if_splits dest!: rewrite_live_slots)

lemma scan_step_oob:
  assumes "scan_step env opts inputs i t l j = Inl (OutOfBounds x)"
  shows "rewrite_shadow opts \<and> blob_run_mode opts \<noteq> kFallback \<and>
         x = g_level (GetImpl_scan env i (t_key t)) \<and>
         \<not> (0 \<le> x \<and> x < int (length (level_shadow_builders l)))"
  using assms
  by (auto simp: scan_step_def Let_def split: if_splits dest!: classify_and_rewrite_oob)

lemma scan_step_slots:
  "scan_step env opts inputs i t l j = Inr (ctl, l', j') \<Longrightarrow>
   length (level_shadow_builders l') = length (level_shadow_builders l)"
  by (auto simp: scan_step_def Let_def split: if_splits dest!: classify_and_rewrite_slots)

lemma scan_loop_oob:
  "scan_loop env opts inputs i ts l j = Inl (OutOfBounds x) \<Longrightarrow>
   rewrite_shadow opts \<and> blob_run_mode opts \<noteq> kFallback \<and>
   \<not> (0 \<le> x \<and> x < int (length (level_shadow_builders l))) \<and>
   (\<exists>n < length ts. x = g_level (GetImpl_scan env (i + n) (t_key (ts ! n))))"
proof (induction ts arbitrary: i l j)
  case Nil
  then show ?case by simp
next
  case (Cons t ts)
  show ?case
  proof (cases "scan_step env opts inputs i t l j")
    case (Inl c)
    with Cons.prems have "scan_step env opts inputs i t l j = Inl (OutOfBounds x)" by simp
    from scan_step_oob [OF this] show ?thesis by auto
  next
    case (Inr r)
    obtain ctl l1 j1 where r: "r = (ctl, l1, j1)" by (cases r) auto
    with Inr Cons.prems have
      lp: "scan_loop env opts inputs (Suc i) ts l1 j1 = Inl (OutOfBounds x)"
      by (cases ctl) auto
    from Cons.IH [OF lp] scan_step_slots [of env opts inputs i t l j ctl l1 j1] Inr r
    obtain n where "n < length ts" "x = g_level (GetImpl_scan env (Suc i + n) (t_key (ts ! n)))"
      and rest: "rewrite_shadow opts \<and> blob_run_mode opts \<noteq> kFallback \<and>
        \<not> (0 \<le> x \<and> x < int (length (level_shadow_builders l)))"
      by auto
    then have "Suc n < length (t # ts) \<and>
        x = g_level (GetImpl_scan env (i + Suc n) (t_key ((t # ts) ! Suc n)))"
      by simp
    with rest show ?thesis by blast
  qed
qed


lemma rewrite_live_shadow_oob:
  assumes "rewrite_shadow opts" "blob_run_mode opts \<noteq> kFallback"
    and "open_output env opts i l j = Inr (False, l1, j1)"
    and "add_record env t l1 j1 = Inr (cs, l2, j2)"
  shows "(rewrite_live env opts i t lv l j = Inl (OutOfBounds lv)) =
         (\<not> (0 \<le> lv \<and> lv < int (length (level_shadow_builders l))))"
proof -
  have len: "length (level_shadow_builders l2) = length (level_shadow_builders l)"
    using open_output_slots [OF assms(3)] add_record_slots [OF assms(4)] by simp
  have "rewrite_live env opts i t lv l j =
        (case shadow_rewrite env opts i lv cs l2 j2 of
           Inl c \<Rightarrow> Inl c
         | Inr (l3, j3) \<Rightarrow> Inr (if \<not> ok (loop_s l3) then Break else Continue, l3, j3))"
    using assms by (simp add: rewrite_live_def)
  then show ?thesis
    using shadow_rewrite_crash [of env opts i lv cs l2 j2 "OutOfBounds lv"] len
    by (auto split: sum.splits)
qed

text \<open>
  C9. With \<^verbatim>\<open>rewrite_shadow\<close> set, the per-level shadow builder array (and the array of
  shadow files) has exactly seven slots. A record classified live carries the level
  that its LSM lookup returned, and in a run mode other than fallback, once its output
  file is open and the record appended, the builder is selected by indexing the array
  with that level: the job stops with an access outside the array exactly when the
  level is not in \<open>0 \<le> level < 7\<close> (so also for \<open>level = -1\<close>); nothing clamps or checks
  it, and no other failure stops the shadow branch this way; the array keeps its seven
  slots. A scan that stops with such an access was in shadow mode and some
  record's lookup reported that out-of-range level: the access is never reached when
  every lookup reports a level between 0 and 6.
\<close>

theorem shadow_builder_index:
  "length (level_shadow_builders init_locals) = 7 \<and>
   length (level_shadow_files init_locals) = 7 \<and>
   (length (level_shadow_builders l) = 7 \<longrightarrow>
      (\<forall>c. (shadow_rewrite env opts i level contexts l j = Inl c) =
            (c = OutOfBounds level \<and> \<not> (0 \<le> level \<and> level < 7))) \<and>
      (\<forall>l' j'. shadow_rewrite env opts i level contexts l j = Inr (l', j') \<longrightarrow>
            length (level_shadow_builders l') = 7)) \<and>
   (classify env inputs i t j = (OK, False, lv, j1) \<longrightarrow>
      lv = g_level (GetImpl_scan env i (t_key t))) \<and>
   (rewrite_shadow opts \<and> blob_run_mode opts \<noteq> kFallback \<and>
    length (level_shadow_builders l) = 7 \<and>
    open_output env opts i l j = Inr (False, l2, j2) \<and>
    add_record env t l2 j2 = Inr (contexts, l3, j3) \<longrightarrow>
      (rewrite_live env opts i t lv l j = Inl (OutOfBounds lv)) = (\<not> (0 \<le> lv \<and> lv < 7))) \<and>
   (scan_loop env opts inputs 0 ts init_locals j0 = Inl (OutOfBounds x) \<longrightarrow>
      rewrite_shadow opts \<and> blob_run_mode opts \<noteq> kFallback \<and> \<not> (0 \<le> x \<and> x < 7) \<and>
      (\<exists>n < length ts. x = g_level (GetImpl_scan env n (t_key (ts ! n)))))"
proof (intro conjI impI allI)
  show "length (level_shadow_builders init_locals) = 7"
    and "length (level_shadow_files init_locals) = 7"
    by (simp_all add: init_locals_def)
next
  fix c assume "length (level_shadow_builders l) = 7"
  then show "(shadow_rewrite env opts i level contexts l j = Inl c) =
             (c = OutOfBounds level \<and> \<not> (0 \<le> level \<and> level < 7))"
    by (simp add: shadow_rewrite_crash)
next
  fix l' j'
  assume "length (level_shadow_builders l) = 7"
    and "shadow_rewrite env opts i level contexts l j = Inr (l', j')"
  then show "length (level_shadow_builders l') = 7"
    using shadow_rewrite_slots by fastforce
next
  assume "classify env inputs i t j = (OK, False, lv, j1)"
  then show "lv = g_level (GetImpl_scan env i (t_key t))"
    by (rule classify_live_level) (simp add: ok_def)
next
  assume a: "rewrite_shadow opts \<and> blob_run_mode opts \<noteq> kFallback \<and>
    length (level_shadow_builders l) = 7 \<and>
    open_output env opts i l j = Inr (False, l2, j2) \<and>
    add_record env t l2 j2 = Inr (contexts, l3, j3)"
  then show "(rewrite_live env opts i t lv l j = Inl (OutOfBounds lv)) =
             (\<not> (0 \<le> lv \<and> lv < 7))"
    using rewrite_live_shadow_oob [of opts env i l j l2 j2 t contexts l3 j3 lv] by simp
next
  assume "scan_loop env opts inputs 0 ts init_locals j0 = Inl (OutOfBounds x)"
  from scan_loop_oob [OF this]
  show "rewrite_shadow opts" and "blob_run_mode opts \<noteq> kFallback"
    and "\<not> (0 \<le> x \<and> x < 7)"
    and "\<exists>n < length ts. x = g_level (GetImpl_scan env n (t_key (ts ! n)))"
    by (simp_all add: init_locals_def)
qed

theorem shadow_builder_index_witness:
  "shadow_rewrite sample_env (sample_opts\<lparr>rewrite_shadow := True\<rparr>) 0 (- 1) [] init_locals init_job
     = Inl (OutOfBounds (- 1)) \<and>
   length (level_shadow_builders (fst (projr
     (shadow_rewrite sample_env (sample_opts\<lparr>rewrite_shadow := True\<rparr>) 0 3 [] init_locals
        init_job)))) = 7 \<and>
   fst (snd (snd (classify sample_env [sample_input 1 [True]] 0 (tup ''a'' ''v'' (bi 1 0 10 0))
     init_job))) = 0 \<and>
   rewrite_live sample_env (sample_opts\<lparr>rewrite_shadow := True\<rparr>) 0
     (tup ''a'' ''v'' (bi 1 0 10 0)) 7 init_locals init_job = Inl (OutOfBounds 7) \<and>
   scan_loop (sample_env\<lparr>GetImpl_scan := \<lambda>i k. get_index ''A'' (- 1)\<rparr>)
     (sample_opts\<lparr>rewrite_shadow := True\<rparr>) [sample_input 1 [True]] 0
     [tup ''a'' ''v'' (bi 1 0 10 0)] init_locals init_job = Inl (OutOfBounds (- 1))"
  using
    shadow_builder_index [where l = init_locals and env = sample_env
      and opts = "sample_opts\<lparr>rewrite_shadow := True\<rparr>" and i = 0 and level = "- 1"
      and contexts = "[]" and j = init_job and ts = "[]"]
    shadow_builder_index [where l = init_locals and env = sample_env
      and opts = "sample_opts\<lparr>rewrite_shadow := True\<rparr>" and i = 0 and level = 3
      and contexts = "[]" and j = init_job and ts = "[]"]
    shadow_builder_index [where l = init_locals and env = sample_env
      and opts = "sample_opts\<lparr>rewrite_shadow := True\<rparr>" and i = 0 and j = init_job
      and inputs = "[sample_input 1 [True]]" and t = "tup ''a'' ''v'' (bi 1 0 10 0)"
      and ts = "[]" and lv = 0
      and ?j1.0 = "snd (snd (snd (classify sample_env [sample_input 1 [True]] 0
          (tup ''a'' ''v'' (bi 1 0 10 0)) init_job)))"]
    shadow_builder_index [where l = init_locals and env = sample_env
      and opts = "sample_opts\<lparr>rewrite_shadow := True\<rparr>" and i = 0 and j = init_job
      and t = "tup ''a'' ''v'' (bi 1 0 10 0)" and ts = "[]" and lv = 7
      and ?l2.0 = "fst (snd (projr (open_output sample_env (sample_opts\<lparr>rewrite_shadow := True\<rparr>)
          0 init_locals init_job)))"
      and ?j2.0 = "snd (snd (projr (open_output sample_env (sample_opts\<lparr>rewrite_shadow := True\<rparr>)
          0 init_locals init_job)))"
      and contexts = "fst (projr (add_record sample_env (tup ''a'' ''v'' (bi 1 0 10 0))
          (fst (snd (projr (open_output sample_env (sample_opts\<lparr>rewrite_shadow := True\<rparr>)
             0 init_locals init_job))))
          (snd (snd (projr (open_output sample_env (sample_opts\<lparr>rewrite_shadow := True\<rparr>)
             0 init_locals init_job))))))"
      and ?l3.0 = "fst (snd (projr (add_record sample_env (tup ''a'' ''v'' (bi 1 0 10 0))
          (fst (snd (projr (open_output sample_env (sample_opts\<lparr>rewrite_shadow := True\<rparr>)
             0 init_locals init_job))))
          (snd (snd (projr (open_output sample_env (sample_opts\<lparr>rewrite_shadow := True\<rparr>)
             0 init_locals init_job)))))))"
      and ?j3.0 = "snd (snd (projr (add_record sample_env (tup ''a'' ''v'' (bi 1 0 10 0))
          (fst (snd (projr (open_output sample_env (sample_opts\<lparr>rewrite_shadow := True\<rparr>)
             0 init_locals init_job))))
          (snd (snd (projr (open_output sample_env (sample_opts\<lparr>rewrite_shadow := True\<rparr>)
             0 init_locals init_job)))))))"]
    shadow_builder_index [where l = init_locals
      and env = "sample_env\<lparr>GetImpl_scan := \<lambda>i k. get_index ''A'' (- 1)\<rparr>"
      and opts = "sample_opts\<lparr>rewrite_shadow := True\<rparr>" and j = init_job
      and inputs = "[sample_input 1 [True]]" and ts = "[tup ''a'' ''v'' (bi 1 0 10 0)]"
      and ?j0.0 = init_job and x = "- 1"]
  by (simp add: run_defs sample_defs)

subsection \<open>Rolling the output file\<close>

lemma BatchWriteNewIndices_builders:
  "BatchWriteNewIndices env cs st j = Inr (st', j') \<Longrightarrow>
   blob_file_builders j' = blob_file_builders j"
  by (induction env cs st j rule: BatchWriteNewIndices.induct)
     (auto simp: Let_def split: prod.splits if_splits)

lemma rewrite_live_no_roll:
  assumes "rewrite_live env opts i t lv l j = Inr (ctl, l', j')"
    and "file_size l = 0" and "blob_file_target_size opts \<noteq> 0"
  shows "file_size l' = 0 \<and> blob_file_builders j' = blob_file_builders j"
proof (cases "blob_run_mode opts = kFallback")
  case True
  with assms show ?thesis
    by (auto simp: rewrite_live_def fallback_rewrite_def Let_def split: if_splits)
next
  case False
  from assms(2,3) have nr: "\<not> blob_file_target_size opts \<le> file_size l"
    by (simp add: word_le_nat_alt unat_eq_0)
  from assms(1) False obtain brk l1 j1 where
    oo: "open_output env opts i l j = Inr (brk, l1, j1)"
    by (auto simp: rewrite_live_def split: sum.splits)
  with nr assms(2) have f1: "file_size l1 = 0 \<and> blob_file_builders j1 = blob_file_builders j"
    by (auto simp: open_output_def emit_def Let_def split: if_splits prod.splits)
  show ?thesis
  proof (cases brk)
    case True
    with assms(1) False oo f1 show ?thesis by (auto simp: rewrite_live_def)
  next
    case nb: False
    with assms(1) False oo obtain cs l2 j2 where
      ar: "add_record env t l1 j1 = Inr (cs, l2, j2)"
      by (auto simp: rewrite_live_def split: sum.splits)
    with f1 have f2: "file_size l2 = 0 \<and> blob_file_builders j2 = blob_file_builders j"
      by (auto simp: add_record_def emit_def upd_metrics_def Let_def split: option.splits)
    from assms(1) False oo nb ar obtain l3 j3 where
      rw: "(if rewrite_shadow opts then shadow_rewrite env opts i lv cs l2 j2
            else lsm_rewrite env cs l2 j2) = Inr (l3, j3)"
      and eq: "l' = l3" "j' = j3"
      by (auto simp: rewrite_live_def split: sum.splits)
    have "file_size l3 = file_size l2 \<and> blob_file_builders j3 = blob_file_builders j2"
      using rw
      by (auto simp: shadow_rewrite_def open_shadow_def lsm_rewrite_def emit_def Let_def
            split: if_splits prod.splits option.splits sum.splits
            dest: BatchWriteNewIndices_builders)
    with f2 eq show ?thesis by simp
  qed
qed

lemma scan_step_no_roll:
  assumes "scan_step env opts inputs i t l j = Inr (ctl, l', j')"
    and "file_size l = 0" and "blob_file_target_size opts \<noteq> 0"
  shows "file_size l' = 0 \<and> blob_file_builders j' = blob_file_builders j"
proof -
  have car: "file_size l1' = 0 \<and> blob_file_builders j1' = blob_file_builders j1"
    if "classify_and_rewrite env opts inputs i t l1 j1 = Inr (ctl, l1', j1')"
      and "file_size l1 = 0" for l1 j1 l1' j1'
  proof -
    obtain cs d lv j2 where c: "classify env inputs i t j1 = (cs, d, lv, j2)"
      by (cases "classify env inputs i t j1") auto
    then have b: "blob_file_builders j2 = blob_file_builders j1"
      by (auto simp: classify_def DiscardEntryWithBitset_def DiscardEntry_def Let_def emit_def
            upd_metrics_def split: option.splits if_splits prod.splits)
    show ?thesis
    proof (cases "\<not> ok cs \<or> d")
      case True
      with that c b show ?thesis
        by (auto simp: classify_and_rewrite_def upd_metrics_def split: if_splits)
    next
      case False
      with that c have
        "rewrite_live env opts i t lv
           (l1\<lparr>loop_s := cs, valid_count := valid_count l1 + 1, last_key_is_fresh := True\<rparr>) j2
         = Inr (ctl, l1', j1')"
        by (simp add: classify_and_rewrite_def)
      from rewrite_live_no_roll [OF this _ assms(3)] that b show ?thesis by simp
    qed
  qed
  show ?thesis
    using assms(1,2)
    by (auto simp: scan_step_def Let_def upd_metrics_def split: if_splits dest!: car)
qed

lemma scan_loop_no_roll:
  "scan_loop env opts inputs i ts l j = Inr (l', j') \<Longrightarrow> file_size l = 0 \<Longrightarrow>
   blob_file_target_size opts \<noteq> 0 \<Longrightarrow>
   file_size l' = 0 \<and> blob_file_builders j' = blob_file_builders j"
proof (induction ts arbitrary: i l j)
  case Nil
  then show ?case by simp
next
  case (Cons t ts)
  from Cons.prems(1) obtain ctl l1 j1 where
    st: "scan_step env opts inputs i t l j = Inr (ctl, l1, j1)"
    by (auto split: sum.splits)
  note n1 = scan_step_no_roll [OF st Cons.prems(2,3)]
  show ?case
  proof (cases ctl)
    case Break
    with Cons.prems(1) st n1 show ?thesis by simp
  next
    case Continue
    with Cons.prems(1) st have "scan_loop env opts inputs (Suc i) ts l1 j1 = Inr (l', j')"
      by simp
    from Cons.IH [OF this _ Cons.prems(3)] n1 show ?thesis by simp
  qed
qed


lemma finish_level_shadows_events:
  "finish_level_shadows env bs st = (early, r, bs', es) \<Longrightarrow> length bs' = length bs"
  by (induction env bs st arbitrary: early r bs' es rule: finish_level_shadows.induct)
     (auto simp: Let_def split: prod.splits if_splits)

lemma after_loop_builders:
  "after_loop env opts l j = Inr (st, l', j') \<Longrightarrow>
   length (blob_file_builders j') \<le> Suc (length (blob_file_builders j))"
  by (auto simp: after_loop_def keep_last_output_def emit_def Let_def
        split: if_splits prod.splits option.splits sum.splits)

lemma DoRunGC_never_rolls:
  assumes "DoRunGC env opts inputs tuples j = Inr (st, l', j')"
    and "blob_file_target_size opts \<noteq> 0"
  shows "length (blob_file_builders j') \<le> Suc (length (blob_file_builders j))"
proof (cases "BuildIterator env inputs")
  case (Inl c)
  with assms show ?thesis by (simp add: DoRunGC_def)
next
  case (Inr bs)
  show ?thesis
  proof (cases "ok bs")
    case False
    with assms Inr show ?thesis by (auto simp: DoRunGC_def)
  next
    case True
    with assms Inr obtain l1 j1 where
      lp: "scan_loop env opts inputs 0 tuples (init_locals\<lparr>loop_s := bs\<rparr>) j = Inr (l1, j1)"
      and al: "after_loop env opts l1 j1 = Inr (st, l', j')"
      by (auto simp: DoRunGC_def split: if_splits sum.splits)
    from scan_loop_no_roll [OF lp _ assms(2)]
    have "blob_file_builders j1 = blob_file_builders j" by (simp add: init_locals_def)
    with after_loop_builders [OF al] show ?thesis by simp
  qed
qed

text \<open>
  C7 does not hold of the code. \<^verbatim>\<open>file_size\<close> is set to 0 at line 218, compared with
  \<^verbatim>\<open>blob_file_target_size\<close> at lines 295--296 and set to 0 again at line 314, but never
  increased, so with a target other than 0 the current output file is never finalized
  during the scan, however many bytes it holds. Here the target is 10 bytes and two live
  records of 13 bytes each are rewritten: the scan opens the one output file 100, appends
  both records to it (26 bytes), and ends with that single output file.
\<close>

theorem output_file_not_rolled:
  "blob_file_target_size sample_opts = 10 \<and>
   blob_run_mode sample_opts = kNormal \<and>
   fst (projr (Run (sample_env\<lparr>GetImpl_scan := lsm_ab\<rparr>) sample_opts two_files two_records
     init_job)) = OK \<and>
   gc_bytes_written_blob (metrics (snd (projr
     (Run (sample_env\<lparr>GetImpl_scan := lsm_ab\<rparr>) sample_opts two_files two_records
        init_job)))) = 26 \<and>
   trace (snd (projr (Run (sample_env\<lparr>GetImpl_scan := lsm_ab\<rparr>) sample_opts two_files
     two_records init_job))) =
     [EvGetImpl ''a'', EvNewFile 100, EvBlobAdd 100 ''a'', EvGetImpl ''b'', EvBlobAdd 100 ''b''] \<and>
   map fst (blob_file_builders (snd (projr (Run (sample_env\<lparr>GetImpl_scan := lsm_ab\<rparr>)
     sample_opts two_files two_records init_job)))) = [Some 100]"
  by (simp add: run_defs sample_defs)

subsection \<open>A scan that yields no key\<close>

lemma finish_level_shadows_none:
  "finish_level_shadows env (replicate n None) st = (False, st, replicate n None, [])"
  by (induction n) auto

text \<open>
  C8, as the code has it. In a build with assertions compiled out, when every reader of
  the input set opens and the merged iterator yields no key and reports an OK status,
  \<^verbatim>\<open>Run\<close> returns OK and leaves the job as it was: no output blob file is created, no
  rewrite batch is queued, nothing is looked up.
\<close>

theorem zero_keys_noop:
  "\<not> assertions env \<Longrightarrow> open_readers env inputs = OK \<Longrightarrow> iter_status env = OK \<Longrightarrow>
   Run env opts inputs [] j = Inr (OK, j)"
  by (simp add: Run_def DoRunGC_def BuildIterator_def after_loop_def keep_last_output_def
      init_locals_def ok_def emit_def finish_level_shadows_none)

theorem zero_keys_noop_witness:
  "\<not> assertions sample_env \<and> open_readers sample_env [sample_input 1 [True]] = OK \<and>
   iter_status sample_env = OK \<and>
   Run sample_env sample_opts [sample_input 1 [True]] [] init_job = Inr (OK, init_job)"
  using zero_keys_noop [of sample_env "[sample_input 1 [True]]" sample_opts init_job]
  by (simp add: sample_defs ok_def)

text \<open>
  C8 as stated does not hold in a build that keeps assertions: line 227 asserts
  \<^verbatim>\<open>gc_iter->Valid()\<close> right after \<^verbatim>\<open>SeekToFirst\<close>, so an iterator over a valid,
  non-empty input set that yields no key stops the job there.
\<close>

theorem zero_keys_assertion:
  "Run (sample_env\<lparr>assertions := True\<rparr>) sample_opts [sample_input 1 [True]] [] init_job
   = Inl (AssertFailed ''gc_iter->Valid()'')"
  by (simp add: run_defs sample_defs)

subsection \<open>A record from a file outside the input set\<close>

lemma replicate_seven: "replicate 7 x = [x, x, x, x, x, x, x]"
  by (simp add: eval_nat_numeral)

lemma foreign_file_breaks_scan:
  assumes "find_input inputs (file_number (t_blob_index t)) = None"
    and "\<not> IsShutingDown_scan env i"
    and "\<not> (t_key t = last_key l \<and> last_key_is_fresh l \<and> t_key t \<noteq> [])"
  shows "\<exists>l' j'. scan_step env opts inputs i t l j = Inr (Break, l', j') \<and>
           loop_s l' = NotFound ''Blob file meta not found'' \<and>
           trace j' = trace j \<and> rewrite_batches j' = rewrite_batches j"
  using assms
  by (auto simp: scan_step_def classify_and_rewrite_def classify_def
        DiscardEntryWithBitset_def Let_def ok_def upd_metrics_def)

lemma after_loop_keeps_status:
  "\<not> rewrite_shadow opts \<Longrightarrow> iter_status env = OK \<Longrightarrow> loop_s l \<noteq> OK \<Longrightarrow>
   after_loop env opts l j = Inr (loop_s l, l, j)"
  by (simp add: after_loop_def keep_last_output_def ok_def)

text \<open>
  C10 does not hold of the code in shadow mode. The bitset check does answer NotFound
  for a record whose file is not among the inputs, and the loop does break at once (of
  three records, the third is never counted). But with \<^verbatim>\<open>rewrite_shadow\<close> set, lines
  427--436 then finish every open shadow builder and assign each status to \<^verbatim>\<open>s\<close>: the
  builder opened for the first, live record finishes with OK, and \<^verbatim>\<open>Run\<close> returns OK in
  place of the NotFound. Without \<^verbatim>\<open>rewrite_shadow\<close> the same scan returns the NotFound.
\<close>

theorem foreign_file_error_lost_in_shadow_mode:
  "find_input [sample_input 1 [True]] (file_number (bi 9 0 10 0)) = None \<and>
   loop_s (fst (projr (scan_loop sample_env (sample_opts\<lparr>rewrite_shadow := True\<rparr>)
     [sample_input 1 [True]] 0
     [tup ''a'' ''v'' (bi 1 0 10 0), tup ''b'' ''w'' (bi 9 0 10 0), tup ''c'' ''x'' (bi 1 0 10 0)]
     init_locals init_job))) = NotFound ''Blob file meta not found'' \<and>
   total_count (fst (projr (scan_loop sample_env (sample_opts\<lparr>rewrite_shadow := True\<rparr>)
     [sample_input 1 [True]] 0
     [tup ''a'' ''v'' (bi 1 0 10 0), tup ''b'' ''w'' (bi 9 0 10 0), tup ''c'' ''x'' (bi 1 0 10 0)]
     init_locals init_job))) = 2 \<and>
   fst (projr (Run sample_env (sample_opts\<lparr>rewrite_shadow := True\<rparr>) [sample_input 1 [True]]
     [tup ''a'' ''v'' (bi 1 0 10 0), tup ''b'' ''w'' (bi 9 0 10 0), tup ''c'' ''x'' (bi 1 0 10 0)]
     init_job)) = OK \<and>
   fst (projr (Run sample_env sample_opts [sample_input 1 [True]]
     [tup ''a'' ''v'' (bi 1 0 10 0), tup ''b'' ''w'' (bi 9 0 10 0), tup ''c'' ''x'' (bi 1 0 10 0)]
     init_job)) = NotFound ''Blob file meta not found''"
  by (simp add: run_defs sample_defs replicate_seven word_le_nat_alt)

subsection \<open>The events of Finish\<close>

lemma all_before_append:
  "all_before P Q (xs @ ys) =
   (all_before P Q xs \<and> all_before P Q ys \<and>
    (list_ex Q xs \<longrightarrow> list_all (\<lambda>x. \<not> P x) ys))"
  by (induction xs) (auto simp: list_all_iff list_ex_iff)

lemma all_before_none: "list_all (\<lambda>x. \<not> Q x) es \<Longrightarrow> all_before P Q es"
  by (induction es) auto

text \<open>What each part of Finish appends to the trace.\<close>

lemma finish_builders_trace:
  "finish_builders env bs st j files = Inr (r, j', files', bs') \<Longrightarrow>
   \<exists>es. trace j' = trace j @ es \<and> list_all (\<lambda>e. \<exists>n. e = EvBuilderFinish n) es"
proof (induction env bs st j files arbitrary: r j' files' bs' rule: finish_builders.induct)
  case (1 env st j files)
  then show ?case by simp
next
  case (2 env h b rest st j files)
  from "2.prems" obtain bl where b: "b = Some bl" by (cases b) auto
  obtain fs cs where bf: "Builder_Finish env bl = (fs, cs)"
    by (cases "Builder_Finish env bl") auto
  from "2.prems" b bf obtain s1 j1 where
    bw: "BatchWriteNewIndices env cs fs (emit [EvBuilderFinish (bld_file bl)] j) = Inr (s1, j1)"
    by (auto split: sum.splits)
  from BatchWriteNewIndices_trace [OF bw]
  have t1: "trace j1 = trace j @ [EvBuilderFinish (bld_file bl)]" by (simp add: emit_def)
  show ?case
  proof (cases "ok s1")
    case False
    with "2.prems" b bf bw t1 show ?thesis by auto
  next
    case True
    with "2.prems" b bf bw obtain n where h: "h = Some n" by (cases h) auto
    obtain fsize entries live where bm: "Builder_meta env bl = (fsize, entries, live)"
      by (cases "Builder_meta env bl") auto
    let ?j2 = "upd_metrics (\<lambda>m. m\<lparr>gc_num_new_files := gc_num_new_files m + 1\<rparr>) j1"
    let ?file = "InitLiveDataBitset entries
                   \<lparr>m_file_number = n, m_file_size = fsize, m_live_data_size = live,
                    m_live_bitset = [], m_state = kPendingGCOutput\<rparr>"
    from "2.prems" b bf bw True h bm obtain rest3 where
      rec: "finish_builders env rest s1 ?j2 (files @ [(?file, n)]) = Inr (r, j', files', rest3)"
      by (auto simp: Let_def split: sum.splits)
    from "2.IH" [OF b bf [symmetric] bw _ _ h bm [symmetric] _ refl refl rec] True
    obtain es where "trace j' = trace ?j2 @ es" "list_all (\<lambda>e. \<exists>n. e = EvBuilderFinish n) es"
      by auto
    with t1 show ?thesis by (auto simp: upd_metrics_def)
  qed
qed


lemma finish_builders_failed:
  assumes "finish_builders env bs st j files = Inr (r, j', files', bs')"
    and "\<not> ok r" and "ok st" and "those (map fst bs') = Some hs"
  shows "bs' = bs"
proof (cases bs)
  case Nil
  with assms show ?thesis by simp
next
  case (Cons p rest)
  obtain h b where p: "p = (h, b)" by (cases p) auto
  from assms(1) Cons p obtain bl where b: "b = Some bl" by (cases b) auto
  obtain fs cs where bf: "Builder_Finish env bl = (fs, cs)"
    by (cases "Builder_Finish env bl") auto
  from assms(1) Cons p b bf obtain s1 j1 where
    bw: "BatchWriteNewIndices env cs fs (emit [EvBuilderFinish (bld_file bl)] j) = Inr (s1, j1)"
    by (auto split: sum.splits)
  show ?thesis
  proof (cases "ok s1")
    case False
    with assms(1) Cons p b bf bw show ?thesis by auto
  next
    case True
    with assms(1) Cons p b bf bw obtain rest3 where "bs' = (None, b) # rest3"
      by (auto simp: Let_def split: option.splits prod.splits sum.splits)
    with assms(4) show ?thesis by simp
  qed
qed

lemma InstallOutputBlobFiles_events:
  assumes "InstallOutputBlobFiles env j = Inr (st, j')"
  shows "\<exists>es. trace j' = trace j @ es \<and>
           list_all (\<lambda>e. \<not> is_write e \<and> \<not> is_flush e \<and> \<not> is_edit e \<and> \<not> is_adjust e) es \<and>
           (if ok st then \<exists>fs. last es = EvBatchFinishFiles fs \<and> es \<noteq> []
            else (\<exists>hs. those (map fst (blob_file_builders j)) = Some hs \<and> es \<noteq> [] \<and>
                       last es = EvBatchDeleteFiles hs \<and> list_all (\<lambda>e. \<not> is_publish e) es) \<or>
                 (\<exists>fs. es \<noteq> [] \<and> last es = EvBatchFinishFiles fs \<and>
                       BatchFinishFiles env fs = st \<and> list_all (\<lambda>e. \<not> is_delete e) es))"
proof -
  from assms obtain r j1 files bs1 where
    fb: "finish_builders env (blob_file_builders j) OK j [] = Inr (r, j1, files, bs1)"
    by (auto simp: InstallOutputBlobFiles_def split: sum.splits)
  from finish_builders_trace [OF fb] obtain es1 where
    t1: "trace j1 = trace j @ es1" and a1: "list_all (\<lambda>e. \<exists>n. e = EvBuilderFinish n) es1"
    by auto
  from a1 have c1: "list_all (\<lambda>e. \<not> is_write e \<and> \<not> is_flush e \<and> \<not> is_edit e \<and> \<not> is_adjust e \<and>
      \<not> is_publish e \<and> \<not> is_delete e) es1"
    by (auto simp: list_all_iff)
  show ?thesis
  proof (cases "ok r")
    case True
    let ?ps = "BatchFinishFiles env (map snd files)"
    from assms fb True have st: "st = ?ps"
      by (auto simp: InstallOutputBlobFiles_def Let_def split: if_splits)
    from assms fb True have
      "trace j' = trace j1 @ [EvBatchFinishFiles (map snd files)]"
      by (auto simp: InstallOutputBlobFiles_def Let_def emit_def publish_def split: if_splits)
    with t1 c1 st show ?thesis
      by (intro exI [of _ "es1 @ [EvBatchFinishFiles (map snd files)]"])
         (auto simp: list_all_iff)
  next
    case False
    with assms fb obtain hs where hs: "those (map fst bs1) = Some hs"
      and st: "st = r"
      and tr: "trace j' = trace j1 @ [EvBatchDeleteFiles hs]"
      by (auto simp: InstallOutputBlobFiles_def Let_def emit_def split: option.splits)
    from finish_builders_failed [OF fb False _ hs] have "bs1 = blob_file_builders j"
      by (simp add: ok_def)
    with hs t1 c1 tr st False show ?thesis
      by (intro exI [of _ "es1 @ [EvBatchDeleteFiles hs]"]) (auto simp: list_all_iff)
  qed
qed

text \<open>
  C2, as the code has it. If step 1 of \<^verbatim>\<open>Finish\<close> (\<^verbatim>\<open>InstallOutputBlobFiles\<close>) returns a
  status other than OK, then \<^verbatim>\<open>Finish\<close> returns that status after doing nothing more
  than taking the mutex again: no rewrite batch is applied to the LSM, the WAL is not
  synced, no bookkeeping of dropped records is done and the input files are not marked
  obsolete. When the failure arises while the output builders are finished,
  \<^verbatim>\<open>BatchDeleteFiles\<close> is called last, with the handles of all output files of the job,
  and nothing is published. When \<^verbatim>\<open>BatchFinishFiles\<close> itself fails, its status is the
  one returned and the job calls no \<^verbatim>\<open>BatchDeleteFiles\<close>.
\<close>

theorem install_failure_skips_the_rest:
  assumes "InstallOutputBlobFiles env (emit [EvMutexUnlock] j) = Inr (st, j1)"
    and "st \<noteq> OK"
  shows "Finish env opts inputs j = Inr (st, emit [EvMutexLock] j1) \<and>
         (\<exists>es. trace j1 = trace j @ EvMutexUnlock # es \<and>
            list_all (\<lambda>e. \<not> is_write e \<and> \<not> is_flush e \<and> \<not> is_edit e \<and> \<not> is_adjust e) es \<and>
            ((\<exists>hs. those (map fst (blob_file_builders j)) = Some hs \<and> es \<noteq> [] \<and>
                   last es = EvBatchDeleteFiles hs \<and> list_all (\<lambda>e. \<not> is_publish e) es) \<or>
             (\<exists>fs. es \<noteq> [] \<and> last es = EvBatchFinishFiles fs \<and>
                   BatchFinishFiles env fs = st \<and> list_all (\<lambda>e. \<not> is_delete e) es)))"
proof
  from assms show "Finish env opts inputs j = Inr (st, emit [EvMutexLock] j1)"
    by (simp add: Finish_def ok_def)
next
  from InstallOutputBlobFiles_events [OF assms(1)] assms(2)
  show "\<exists>es. trace j1 = trace j @ EvMutexUnlock # es \<and>
            list_all (\<lambda>e. \<not> is_write e \<and> \<not> is_flush e \<and> \<not> is_edit e \<and> \<not> is_adjust e) es \<and>
            ((\<exists>hs. those (map fst (blob_file_builders j)) = Some hs \<and> es \<noteq> [] \<and>
                   last es = EvBatchDeleteFiles hs \<and> list_all (\<lambda>e. \<not> is_publish e) es) \<or>
             (\<exists>fs. es \<noteq> [] \<and> last es = EvBatchFinishFiles fs \<and>
                   BatchFinishFiles env fs = st \<and> list_all (\<lambda>e. \<not> is_delete e) es))"
    by (auto simp: emit_def ok_def)
qed

theorem install_failure_skips_the_rest_witness:
  "fst (projr (InstallOutputBlobFiles (sample_env\<lparr>Builder_Finish := \<lambda>b. (IOError ''footer'', [])\<rparr>)
     (emit [EvMutexUnlock] scanned_job))) \<noteq> OK \<and>
   fst (projr (Finish (sample_env\<lparr>Builder_Finish := \<lambda>b. (IOError ''footer'', [])\<rparr>) sample_opts
     two_files scanned_job)) = IOError ''footer'' \<and>
   trace (snd (projr (Finish (sample_env\<lparr>Builder_Finish := \<lambda>b. (IOError ''footer'', [])\<rparr>)
     sample_opts two_files scanned_job))) =
     trace scanned_job @
     [EvMutexUnlock, EvBuilderFinish 100, EvBatchDeleteFiles [100], EvMutexLock] \<and>
   fst (projr (Finish (sample_env\<lparr>BatchFinishFiles := \<lambda>fs. IOError ''publish''\<rparr>) sample_opts
     two_files scanned_job)) = IOError ''publish'' \<and>
   trace (snd (projr (Finish (sample_env\<lparr>BatchFinishFiles := \<lambda>fs. IOError ''publish''\<rparr>)
     sample_opts two_files scanned_job))) =
     trace scanned_job @
     [EvMutexUnlock, EvBuilderFinish 100, EvBatchFinishFiles [100], EvMutexLock]"
  using
    install_failure_skips_the_rest
      [where env = "sample_env\<lparr>Builder_Finish := \<lambda>b. (IOError ''footer'', [])\<rparr>"
        and j = scanned_job and opts = sample_opts and inputs = two_files
        and st = "fst (projr (InstallOutputBlobFiles
                    (sample_env\<lparr>Builder_Finish := \<lambda>b. (IOError ''footer'', [])\<rparr>)
                    (emit [EvMutexUnlock] scanned_job)))"
        and ?j1.0 = "snd (projr (InstallOutputBlobFiles
                    (sample_env\<lparr>Builder_Finish := \<lambda>b. (IOError ''footer'', [])\<rparr>)
                    (emit [EvMutexUnlock] scanned_job)))"]
    install_failure_skips_the_rest
      [where env = "sample_env\<lparr>BatchFinishFiles := \<lambda>fs. IOError ''publish''\<rparr>"
        and j = scanned_job and opts = sample_opts and inputs = two_files
        and st = "fst (projr (InstallOutputBlobFiles
                    (sample_env\<lparr>BatchFinishFiles := \<lambda>fs. IOError ''publish''\<rparr>)
                    (emit [EvMutexUnlock] scanned_job)))"
        and ?j1.0 = "snd (projr (InstallOutputBlobFiles
                    (sample_env\<lparr>BatchFinishFiles := \<lambda>fs. IOError ''publish''\<rparr>)
                    (emit [EvMutexUnlock] scanned_job)))"]
  by (simp add: run_defs finish_defs sample_defs word_le_nat_alt)

text \<open>
  C2 as stated does not hold when the publishing itself fails. With one output file
  finished and \<^verbatim>\<open>BatchFinishFiles\<close> failing, \<^verbatim>\<open>Finish\<close> returns that error, applies no
  batch and does not mark the inputs obsolete, but \<^verbatim>\<open>BatchDeleteFiles\<close> is never called:
  the deleting branch of \<^verbatim>\<open>InstallOutputBlobFiles\<close> is the \<^verbatim>\<open>else\<close> of the test that leads
  to \<^verbatim>\<open>BatchFinishFiles\<close>.
\<close>

theorem publish_failure_deletes_nothing:
  "map fst (blob_file_builders scanned_job) = [Some 100] \<and>
   fst (projr (Finish (sample_env\<lparr>BatchFinishFiles := \<lambda>fs. IOError ''publish''\<rparr>) sample_opts
     two_files scanned_job)) = IOError ''publish'' \<and>
   \<not> list_ex is_delete (trace (snd (projr
     (Finish (sample_env\<lparr>BatchFinishFiles := \<lambda>fs. IOError ''publish''\<rparr>) sample_opts
        two_files scanned_job)))) \<and>
   list_ex is_publish (trace (snd (projr
     (Finish (sample_env\<lparr>BatchFinishFiles := \<lambda>fs. IOError ''publish''\<rparr>) sample_opts
        two_files scanned_job))))"
  by (simp add: run_defs finish_defs sample_defs word_le_nat_alt)

subsection \<open>The order of the commit\<close>

lemma all_before_no_first: "list_all (\<lambda>x. \<not> P x) es \<Longrightarrow> all_before P Q es"
  by (induction es) (auto simp: list_all_iff)

lemma rewrite_loop_events:
  "rewrite_loop env i bs st j d = (r, j', d', bs') \<Longrightarrow>
   blob_storage j' = blob_storage j \<and>
   (\<exists>es. trace j' = trace j @ es \<and>
      list_all (\<lambda>e. (\<exists>k. e = EvGetImpl k) \<or> (\<exists>wb. e = EvWrite wb)) es)"
proof (induction bs arbitrary: i st j d r j' d' bs')
  case Nil
  then show ?case by simp
next
  case (Cons p rest)
  obtain wb cb where p: "p = (wb, cb)" by (cases p) auto
  show ?case
  proof (cases "IsDropped_rewrite env i \<or> IsShutingDown_rewrite env i")
    case True
    with Cons.prems p show ?thesis by (auto split: if_splits)
  next
    case False
    obtain ws cb1 es where w: "WriteWithCallback env i wb cb = (ws, cb1, es)"
      by (cases "WriteWithCallback env i wb cb") auto
    then have es: "list_all (\<lambda>e. (\<exists>k. e = EvGetImpl k) \<or> (\<exists>wb. e = EvWrite wb)) es"
      by (auto simp: WriteWithCallback_def Let_def split: prod.splits if_splits)
    show ?thesis
    proof (cases "ok ws \<or> IsBusy ws")
      case False
      with Cons.prems p \<open>\<not> (IsDropped_rewrite env i \<or> IsShutingDown_rewrite env i)\<close> w es
      show ?thesis by (auto simp: Let_def emit_def)
    next
      case True
      with Cons.prems p \<open>\<not> (IsDropped_rewrite env i \<or> IsShutingDown_rewrite env i)\<close> w
      obtain j2 d1 rest3 where
        rec: "rewrite_loop env (Suc i) rest ws j2 d1 = (r, j', d', rest3)"
        and j2: "trace j2 = trace j @ es" "blob_storage j2 = blob_storage j"
        by (auto simp: Let_def emit_def upd_metrics_def split: if_splits prod.splits)
      from Cons.IH [OF rec] j2 es show ?thesis by auto
    qed
  qed
qed

lemma apply_dropped_events:
  "\<exists>es. trace (apply_dropped env d j) = trace j @ es \<and> list_all is_adjust es"
proof (induction env d j rule: apply_dropped.induct)
  case (1 env j)
  then show ?case by simp
next
  case (2 env fn bytes ords d j)
  show ?case
  proof (cases "GetBlobStorage_found env")
    case False
    with 2 show ?thesis by simp
  next
    case True
    show ?thesis
    proof (cases "blob_storage j fn")
      case None
      with 2 True show ?thesis by simp
    next
      case (Some fl0)
      let ?es = "map (EvSetLiveDataBitset fn) ords @
                   [EvUpdateLiveDataSize fn (- bytes), EvComputeGCScore]"
      have a: "list_all is_adjust ?es" by (auto simp: list_all_iff)
      from "2.IH"(2) [OF True Some refl refl refl refl] True Some
      obtain es where
        "trace (apply_dropped env ((fn, bytes, ords) # d) j) = (trace j @ ?es) @ es"
        "list_all is_adjust es"
        by (auto simp: Let_def emit_def)
      with a show ?thesis
        by (intro exI [of _ "?es @ es"]) simp
    qed
  qed
qed

lemma RewriteValidKeyToLSM_events:
  assumes "RewriteValidKeyToLSM env j = (st, j')"
  shows "\<exists>ws adj fl. trace j' = trace j @ ws @ EvMutexLock # adj @ EvMutexUnlock # fl \<and>
           list_all (\<lambda>e. (\<exists>k. e = EvGetImpl k) \<or> (\<exists>wb. e = EvWrite wb)) ws \<and>
           list_all is_adjust adj \<and> (fl = [] \<or> fl = [EvFlushWAL]) \<and>
           (ok st \<longrightarrow> fl = [EvFlushWAL])"
proof -
  obtain ls j1 d bs1 where
    lp: "rewrite_loop env 0 (rewrite_batches j) OK j [] = (ls, j1, d, bs1)"
    by (cases "rewrite_loop env 0 (rewrite_batches j) OK j []") auto
  from rewrite_loop_events [OF lp] obtain ws where
    ws: "trace j1 = trace j @ ws"
      "list_all (\<lambda>e. (\<exists>k. e = EvGetImpl k) \<or> (\<exists>wb. e = EvWrite wb)) ws"
    by auto
  let ?j2 = "emit [EvMutexLock] (j1\<lparr>rewrite_batches := bs1\<rparr>)"
  from apply_dropped_events [of env d ?j2] obtain adj where
    adj: "trace (apply_dropped env d ?j2) = trace ?j2 @ adj" "list_all is_adjust adj"
    by auto
  from assms lp have
    "(trace j' = trace (apply_dropped env d ?j2) @ [EvMutexUnlock] \<and> \<not> ok st) \<or>
     trace j' = trace (apply_dropped env d ?j2) @ [EvMutexUnlock, EvFlushWAL]"
    by (auto simp: RewriteValidKeyToLSM_def Let_def emit_def split: if_splits)
  with adj ws show ?thesis by (auto simp: emit_def)
qed


lemma Finish_events:
  assumes "Finish env opts inputs j = Inr (st, j')"
  shows "\<exists>e1 e2 e3. trace j' = trace j @ EvMutexUnlock # e1 @ e2 @ EvMutexLock # e3 \<and>
      list_all (\<lambda>e. \<not> is_write e \<and> \<not> is_flush e \<and> \<not> is_edit e \<and> \<not> is_adjust e) e1 \<and>
      (e2 = [] \<or> e2 = [EvInstallShadows] \<or>
       (\<exists>ws adj fl. e2 = ws @ EvMutexLock # adj @ EvMutexUnlock # fl \<and>
          list_all (\<lambda>e. (\<exists>k. e = EvGetImpl k) \<or> (\<exists>wb. e = EvWrite wb)) ws \<and>
          list_all is_adjust adj \<and> (fl = [] \<or> fl = [EvFlushWAL]))) \<and>
      (e3 = [] \<or> (\<exists>ed sq. e3 = [EvLogAndApply ed sq])) \<and>
      (e2 \<noteq> [] \<longrightarrow> list_ex is_publish e1) \<and>
      (e3 \<noteq> [] \<and> \<not> rewrite_shadow opts \<longrightarrow> list_ex is_flush e2)"
proof -
  from assms obtain st1 j1 where
    ins: "InstallOutputBlobFiles env (emit [EvMutexUnlock] j) = Inr (st1, j1)"
    by (auto simp: Finish_def split: sum.splits)
  from InstallOutputBlobFiles_events [OF ins] obtain e1 where
    e1: "trace j1 = trace j @ EvMutexUnlock # e1"
      "list_all (\<lambda>e. \<not> is_write e \<and> \<not> is_flush e \<and> \<not> is_edit e \<and> \<not> is_adjust e) e1"
    and l1: "ok st1 \<longrightarrow> (\<exists>fs. last e1 = EvBatchFinishFiles fs \<and> e1 \<noteq> [])"
    by (auto simp: emit_def split: if_splits)
  have p1: "list_ex is_publish e1" if "ok st1"
  proof -
    from l1 that obtain fs where "last e1 = EvBatchFinishFiles fs" "e1 \<noteq> []" by auto
    then have "EvBatchFinishFiles fs \<in> set e1" using last_in_set [of e1] by simp
    moreover have "is_publish (EvBatchFinishFiles fs)" by simp
    ultimately show ?thesis unfolding list_ex_iff by blast
  qed
  obtain st2 j2 where
    mid: "(if ok st1 then
             (if \<not> rewrite_shadow opts then RewriteValidKeyToLSM env j1
              else InstallOutputShadows j1)
           else (st1, j1)) = (st2, j2)"
    by (cases "(if ok st1 then
             (if \<not> rewrite_shadow opts then RewriteValidKeyToLSM env j1
              else InstallOutputShadows j1)
           else (st1, j1))") auto
  have e2: "\<exists>e2. trace j2 = trace j1 @ e2 \<and>
      (e2 = [] \<or> e2 = [EvInstallShadows] \<or>
       (\<exists>ws adj fl. e2 = ws @ EvMutexLock # adj @ EvMutexUnlock # fl \<and>
          list_all (\<lambda>e. (\<exists>k. e = EvGetImpl k) \<or> (\<exists>wb. e = EvWrite wb)) ws \<and>
          list_all is_adjust adj \<and> (fl = [] \<or> fl = [EvFlushWAL]))) \<and>
      (e2 \<noteq> [] \<longrightarrow> ok st1) \<and>
      (ok st2 \<and> \<not> rewrite_shadow opts \<longrightarrow> list_ex is_flush e2)"
  proof (cases "ok st1")
    case False
    with mid show ?thesis by auto
  next
    case True
    show ?thesis
    proof (cases "rewrite_shadow opts")
      case True
      with mid \<open>ok st1\<close> show ?thesis by (auto simp: InstallOutputShadows_def emit_def)
    next
      case False
      with mid \<open>ok st1\<close> have "RewriteValidKeyToLSM env j1 = (st2, j2)" by simp
      from RewriteValidKeyToLSM_events [OF this] obtain ws adj fl where
        h: "trace j2 = trace j1 @ ws @ EvMutexLock # adj @ EvMutexUnlock # fl"
          "list_all (\<lambda>e. (\<exists>k. e = EvGetImpl k) \<or> (\<exists>wb. e = EvWrite wb)) ws"
          "list_all is_adjust adj" "fl = [] \<or> fl = [EvFlushWAL]" "ok st2 \<longrightarrow> fl = [EvFlushWAL]"
        by blast
      show ?thesis
      proof (intro exI [of _ "ws @ EvMutexLock # adj @ EvMutexUnlock # fl"] conjI impI)
        show "trace j2 = trace j1 @ ws @ EvMutexLock # adj @ EvMutexUnlock # fl" by (rule h(1))
        show "ok st1" by (rule True)
        show "list_ex is_flush (ws @ EvMutexLock # adj @ EvMutexUnlock # fl)"
          if "ok st2 \<and> \<not> rewrite_shadow opts"
          using that h(5) by simp
        show "ws @ EvMutexLock # adj @ EvMutexUnlock # fl = [] \<or>
          ws @ EvMutexLock # adj @ EvMutexUnlock # fl = [EvInstallShadows] \<or>
          (\<exists>ws' adj' fl'. ws @ EvMutexLock # adj @ EvMutexUnlock # fl =
               ws' @ EvMutexLock # adj' @ EvMutexUnlock # fl' \<and>
             list_all (\<lambda>e. (\<exists>k. e = EvGetImpl k) \<or> (\<exists>wb. e = EvWrite wb)) ws' \<and>
             list_all is_adjust adj' \<and> (fl' = [] \<or> fl' = [EvFlushWAL]))"
          using h(2,3,4) by blast
      qed
    qed
  qed
  then obtain e2 where
    t2: "trace j2 = trace j1 @ e2"
    and s2: "e2 = [] \<or> e2 = [EvInstallShadows] \<or>
       (\<exists>ws adj fl. e2 = ws @ EvMutexLock # adj @ EvMutexUnlock # fl \<and>
          list_all (\<lambda>e. (\<exists>k. e = EvGetImpl k) \<or> (\<exists>wb. e = EvWrite wb)) ws \<and>
          list_all is_adjust adj \<and> (fl = [] \<or> fl = [EvFlushWAL]))"
    and q2: "e2 \<noteq> [] \<longrightarrow> ok st1" "ok st2 \<and> \<not> rewrite_shadow opts \<longrightarrow> list_ex is_flush e2"
    by blast
  from assms ins mid have
    "trace j' = trace j2 @ [EvMutexLock] \<or>
     (ok st2 \<and> (\<exists>ed sq. trace j' = trace j2 @ [EvMutexLock, EvLogAndApply ed sq]))"
    by (auto simp: Finish_def Let_def emit_def DeleteInputBlobFiles_def upd_metrics_def
          split: if_splits)
  then obtain e3 where
    e3: "trace j' = trace j2 @ EvMutexLock # e3" "e3 = [] \<or> (\<exists>ed sq. e3 = [EvLogAndApply ed sq])"
      "e3 \<noteq> [] \<longrightarrow> ok st2"
    by auto
  have tr: "trace j' = trace j @ EvMutexUnlock # e1 @ e2 @ EvMutexLock # e3"
    using e1(1) t2 e3(1) by simp
  have a: "e2 \<noteq> [] \<longrightarrow> list_ex is_publish e1" using q2(1) p1 by blast
  have b: "e3 \<noteq> [] \<and> \<not> rewrite_shadow opts \<longrightarrow> list_ex is_flush e2"
    using q2(2) e3(3) by blast
  from tr e1(2) s2 e3(2) a b show ?thesis by blast
qed

text \<open>
  C6. Among the events that one call of \<^verbatim>\<open>Finish\<close> adds to the trace, the publishing of
  the output blob files (\<^verbatim>\<open>BatchFinishFiles\<close>) comes before every rewrite batch applied
  to the LSM, every applied rewrite batch comes before the WAL sync, and the WAL sync
  comes before the manifest edit that marks the input files obsolete. A batch is applied
  only after a publishing, and when the indices go through the LSM (\<^verbatim>\<open>rewrite_shadow\<close>
  unset) the inputs are marked obsolete only after a WAL sync.
\<close>

theorem Finish_commit_order:
  assumes "Finish env opts inputs j = Inr (st, j')"
  shows "\<exists>es. trace j' = trace j @ es \<and>
           all_before is_publish is_write es \<and>
           all_before is_write is_flush es \<and>
           all_before is_flush is_edit es \<and>
           (list_ex is_write es \<longrightarrow> list_ex is_publish es) \<and>
           (\<not> rewrite_shadow opts \<and> list_ex is_edit es \<longrightarrow> list_ex is_flush es)"
proof -
  from Finish_events [OF assms] obtain e1 e2 e3 where
    tr: "trace j' = trace j @ EvMutexUnlock # e1 @ e2 @ EvMutexLock # e3"
    and e1: "list_all (\<lambda>e. \<not> is_write e \<and> \<not> is_flush e \<and> \<not> is_edit e \<and> \<not> is_adjust e) e1"
    and e2: "e2 = [] \<or> e2 = [EvInstallShadows] \<or>
       (\<exists>ws adj fl. e2 = ws @ EvMutexLock # adj @ EvMutexUnlock # fl \<and>
          list_all (\<lambda>e. (\<exists>k. e = EvGetImpl k) \<or> (\<exists>wb. e = EvWrite wb)) ws \<and>
          list_all is_adjust adj \<and> (fl = [] \<or> fl = [EvFlushWAL]))"
    and e3: "e3 = [] \<or> (\<exists>ed sq. e3 = [EvLogAndApply ed sq])"
    and pub: "e2 \<noteq> [] \<longrightarrow> list_ex is_publish e1"
    and fls: "e3 \<noteq> [] \<and> \<not> rewrite_shadow opts \<longrightarrow> list_ex is_flush e2"
    by blast
  have adj: "list_all is_adjust xs \<Longrightarrow>
      list_all (\<lambda>e. \<not> is_publish e \<and> \<not> is_write e \<and> \<not> is_flush e \<and> \<not> is_edit e) xs" for xs
    by (induction xs) (auto elim: is_adjust.elims)
  have ws: "list_all (\<lambda>e. (\<exists>k. e = EvGetImpl k) \<or> (\<exists>wb. e = EvWrite wb)) xs \<Longrightarrow>
      list_all (\<lambda>e. \<not> is_publish e \<and> \<not> is_flush e \<and> \<not> is_edit e) xs" for xs
    by (induction xs) auto
  have c2: "list_all (\<lambda>e. \<not> is_publish e \<and> \<not> is_edit e) e2 \<and>
            all_before is_write is_flush e2 \<and> all_before is_publish is_write e2 \<and>
            all_before is_flush is_edit e2"
  proof -
    from e2 consider (none) "e2 = []" | (shadow) "e2 = [EvInstallShadows]"
      | (lsm) ws' adj' fl where "e2 = ws' @ EvMutexLock # adj' @ EvMutexUnlock # fl"
          "list_all (\<lambda>e. (\<exists>k. e = EvGetImpl k) \<or> (\<exists>wb. e = EvWrite wb)) ws'"
          "list_all is_adjust adj'" "fl = [] \<or> fl = [EvFlushWAL]"
      by blast
    then show ?thesis
    proof cases
      case none
      then show ?thesis by simp
    next
      case shadow
      then show ?thesis by simp
    next
      case h: lsm
      let ?a = "ws' @ EvMutexLock # adj' @ [EvMutexUnlock]"
      have a: "list_all (\<lambda>e. \<not> is_publish e \<and> \<not> is_flush e \<and> \<not> is_edit e) ?a"
        using ws [OF h(2)] adj [OF h(3)] by (auto simp: list_all_iff)
      have f: "list_all (\<lambda>e. \<not> is_publish e \<and> \<not> is_write e \<and> \<not> is_edit e) fl"
        using h(4) by auto
      have e2a: "e2 = ?a @ fl" using h(1) by simp
      have np: "list_all (\<lambda>e. \<not> is_publish e) e2" and ne: "list_all (\<lambda>e. \<not> is_edit e) e2"
        using a f unfolding e2a by (auto simp: list_all_iff)
      have wf: "all_before is_write is_flush e2"
        unfolding e2a all_before_append
        using a h(4) by (auto simp: list_all_iff list_ex_iff intro: all_before_none)
      from np ne wf all_before_no_first [OF np, of is_write] all_before_none [OF ne, of is_flush]
      show ?thesis by (auto simp: list_all_iff)
    qed
  qed
  have c1: "all_before is_write is_flush e1 \<and> all_before is_publish is_write e1 \<and>
            all_before is_flush is_edit e1"
    using e1 by (auto intro!: all_before_none simp: list_all_iff)
  let ?es = "EvMutexUnlock # e1 @ e2 @ EvMutexLock # e3"
  have "all_before is_publish is_write ?es \<and> all_before is_write is_flush ?es \<and>
        all_before is_flush is_edit ?es"
    using c1 c2 e1 e3
    by (auto simp: all_before_append list_all_iff list_ex_iff)
  moreover have "list_ex is_write ?es \<longrightarrow> list_ex is_publish ?es"
    using e1 e3 pub by (auto simp: list_all_iff list_ex_iff)
  moreover have "\<not> rewrite_shadow opts \<and> list_ex is_edit ?es \<longrightarrow> list_ex is_flush ?es"
    using e1 c2 e3 fls by (auto simp: list_all_iff list_ex_iff)
  ultimately show ?thesis using tr by blast
qed


theorem Finish_commit_order_witness:
  "fst (projr (Finish (sample_env\<lparr>GetImpl_commit := lsm_ab\<rparr>) sample_opts two_files scanned_job))
     = OK \<and>
   trace (snd (projr (Finish (sample_env\<lparr>GetImpl_commit := lsm_ab\<rparr>) sample_opts two_files
     scanned_job))) =
     trace scanned_job @
     [EvMutexUnlock, EvBuilderFinish 100, EvBatchFinishFiles [100],
      EvGetImpl ''a'', EvWrite [PutBlobIndex ''a'' ''N''],
      EvGetImpl ''b'', EvWrite [PutBlobIndex ''b'' ''N''],
      EvMutexLock, EvMutexUnlock, EvFlushWAL, EvMutexLock, EvLogAndApply [1, 2] 42] \<and>
   all_before is_publish is_write
     [EvMutexUnlock, EvBuilderFinish 100, EvBatchFinishFiles [100],
      EvGetImpl ''a'', EvWrite [PutBlobIndex ''a'' ''N''],
      EvGetImpl ''b'', EvWrite [PutBlobIndex ''b'' ''N''],
      EvMutexLock, EvMutexUnlock, EvFlushWAL, EvMutexLock, EvLogAndApply [1, 2] 42] \<and>
   all_before is_write is_flush
     [EvMutexUnlock, EvBuilderFinish 100, EvBatchFinishFiles [100],
      EvGetImpl ''a'', EvWrite [PutBlobIndex ''a'' ''N''],
      EvGetImpl ''b'', EvWrite [PutBlobIndex ''b'' ''N''],
      EvMutexLock, EvMutexUnlock, EvFlushWAL, EvMutexLock, EvLogAndApply [1, 2] 42] \<and>
   all_before is_flush is_edit
     [EvMutexUnlock, EvBuilderFinish 100, EvBatchFinishFiles [100],
      EvGetImpl ''a'', EvWrite [PutBlobIndex ''a'' ''N''],
      EvGetImpl ''b'', EvWrite [PutBlobIndex ''b'' ''N''],
      EvMutexLock, EvMutexUnlock, EvFlushWAL, EvMutexLock, EvLogAndApply [1, 2] 42]"
  using Finish_commit_order [of "sample_env\<lparr>GetImpl_commit := lsm_ab\<rparr>" sample_opts two_files
      scanned_job
      "fst (projr (Finish (sample_env\<lparr>GetImpl_commit := lsm_ab\<rparr>) sample_opts two_files
         scanned_job))"
      "snd (projr (Finish (sample_env\<lparr>GetImpl_commit := lsm_ab\<rparr>) sample_opts two_files
         scanned_job))"]
  by (simp add: run_defs finish_defs sample_defs word_le_nat_alt)

subsection \<open>Rewrites that lose the race\<close>

lemma WriteWithCallback_cb:
  "WriteWithCallback env i wb cb = (ws, cb1, es) \<Longrightarrow>
   cb_new_blob_index cb1 = cb_new_blob_index cb \<and> cb_blob_index cb1 = cb_blob_index cb \<and>
   cb_key cb1 = cb_key cb"
  by (auto simp: WriteWithCallback_def Callback_def Let_def split: prod.splits if_splits)

lemma dropped_add_records:
  "\<exists>b os. (fn, b, os) \<in> set (dropped_add fn sz ord d) \<and> ord \<in> set os"
proof (induction fn sz ord d rule: dropped_add.induct)
  case (1 fn sz ord)
  then show ?case by simp
next
  case (2 fn sz ord n bytes ords d)
  show ?case
  proof (cases "n = fn")
    case True
    have "ord \<in> set (if ord \<in> set ords then ords else insort ord ords)"
      by (simp add: set_insort_key)
    with True show ?thesis by (intro exI [of _ "bytes + sz"] exI [of _ "if ord \<in> set ords then ords else insort ord ords"]) simp
  next
    case False
    with 2 obtain b os where "(fn, b, os) \<in> set (dropped_add fn sz ord d)" "ord \<in> set os" by blast
    with False show ?thesis by (intro exI [of _ b] exI [of _ os]) simp
  qed
qed

lemma dropped_add_keeps:
  "(fn', b, os) \<in> set d \<Longrightarrow> ord' \<in> set os \<Longrightarrow>
   \<exists>b' os'. (fn', b', os') \<in> set (dropped_add fn sz ord d) \<and> ord' \<in> set os'"
proof (induction fn sz ord d rule: dropped_add.induct)
  case (1 fn sz ord)
  then show ?case by simp
next
  case (2 fn sz ord n bytes ords d)
  show ?case
  proof (cases "(fn', b, os) = (n, bytes, ords)")
    case True
    show ?thesis
    proof (cases "n = fn")
      case nf: True
      have "ord' \<in> set (if ord \<in> set ords then ords else insort ord ords)"
        using True "2.prems"(2) by (simp add: set_insort_key)
      with True nf show ?thesis
        by (intro exI [of _ "bytes + sz"]
              exI [of _ "if ord \<in> set ords then ords else insort ord ords"]) simp
    next
      case False
      with True "2.prems"(2) show ?thesis by (intro exI [of _ b] exI [of _ os]) simp
    qed
  next
    case False
    with "2.prems" have mem: "(fn', b, os) \<in> set d" by auto
    show ?thesis
    proof (cases "n = fn")
      case True
      with mem "2.prems"(2) show ?thesis by (intro exI [of _ b] exI [of _ os]) simp
    next
      case nf: False
      from "2.IH" [OF nf mem "2.prems"(2)] obtain b' os' where
        "(fn', b', os') \<in> set (dropped_add fn sz ord d)" "ord' \<in> set os'" by blast
      with nf show ?thesis by (intro exI [of _ b'] exI [of _ os']) simp
    qed
  qed
qed

lemma dropped_add_files: "fst ` set (dropped_add fn sz ord d) = insert fn (fst ` set d)"
  by (induction fn sz ord d rule: dropped_add.induct) auto

lemma dropped_add_distinct:
  "distinct (map fst d) \<Longrightarrow> distinct (map fst (dropped_add fn sz ord d))"
proof (induction fn sz ord d rule: dropped_add.induct)
  case (1 fn sz ord)
  then show ?case by simp
next
  case (2 fn sz ord n bytes ords d)
  then show ?case using dropped_add_files [of fn sz ord d] by auto
qed

text \<open>One iteration of the rewrite loop, by the status of the write.\<close>

lemma rewrite_loop_busy:
  assumes "\<not> IsDropped_rewrite env i" "\<not> IsShutingDown_rewrite env i"
    and "WriteWithCallback env i wb cb = (ws, cb1, es)" and "IsBusy ws"
  shows "rewrite_loop env i ((wb, cb) # rest) st j d =
     (case rewrite_loop env (Suc i) rest ws
             (upd_metrics (\<lambda>m. m\<lparr>gc_bytes_read_callback :=
                                   gc_bytes_read_callback m + cb_read_bytes cb1\<rparr>)
                (upd_metrics (\<lambda>m. m\<lparr>gc_num_keys_overwritten_callback :=
                                      gc_num_keys_overwritten_callback m + 1,
                                    gc_bytes_overwritten_callback :=
                                      gc_bytes_overwritten_callback m +
                                      size' (blob_handle (cb_blob_index cb))\<rparr>)
                   (emit es j)))
             (dropped_add (file_number (cb_new_blob_index cb))
                (size' (blob_handle (cb_new_blob_index cb)))
                (order' (blob_handle (cb_new_blob_index cb))) d) of
        (r, j3, d3, rest3) \<Rightarrow> (r, j3, d3, (wb, cb1) # rest3))"
proof -
  from assms(4) have "\<not> ok ws" by (cases ws) (auto simp: ok_def)
  with assms WriteWithCallback_cb [OF assms(3)] show ?thesis
    by (simp add: Let_def blob_record_size_def)
qed

lemma rewrite_loop_ok:
  assumes "\<not> IsDropped_rewrite env i" "\<not> IsShutingDown_rewrite env i"
    and "WriteWithCallback env i wb cb = (ws, cb1, es)" and "ok ws"
  shows "rewrite_loop env i ((wb, cb) # rest) st j d =
     (case rewrite_loop env (Suc i) rest ws
             (upd_metrics (\<lambda>m. m\<lparr>gc_bytes_read_callback :=
                                   gc_bytes_read_callback m + cb_read_bytes cb1\<rparr>)
                (if size' (blob_handle (cb_new_blob_index cb)) > 0 then
                   upd_metrics (\<lambda>m. m\<lparr>gc_bytes_written_lsm :=
                                         gc_bytes_written_lsm m + WriteBatch_GetDataSize env wb,
                                       gc_num_keys_relocated := gc_num_keys_relocated m + 1,
                                       gc_bytes_relocated :=
                                         gc_bytes_relocated m +
                                         size' (blob_handle (cb_blob_index cb))\<rparr>) (emit es j)
                 else
                   upd_metrics (\<lambda>m. m\<lparr>gc_num_keys_fallback := gc_num_keys_fallback m + 1,
                                       gc_bytes_fallback :=
                                         gc_bytes_fallback m +
                                         size' (blob_handle (cb_blob_index cb))\<rparr>) (emit es j)))
             d of
        (r, j3, d3, rest3) \<Rightarrow> (r, j3, d3, (wb, cb1) # rest3))"
  using assms WriteWithCallback_cb [OF assms(3)]
  by (simp add: Let_def blob_record_size_def)

lemma rewrite_loop_error:
  assumes "\<not> IsDropped_rewrite env i" "\<not> IsShutingDown_rewrite env i"
    and "WriteWithCallback env i wb cb = (ws, cb1, es)" and "\<not> ok ws" and "\<not> IsBusy ws"
  shows "rewrite_loop env i ((wb, cb) # rest) st j d = (ws, emit es j, d, (wb, cb1) # rest)"
  using assms by (simp add: Let_def)

lemma rewrite_loop_step:
  assumes "\<not> IsDropped_rewrite env i" "\<not> IsShutingDown_rewrite env i"
    and "WriteWithCallback env i wb cb = (ws, cb1, es)"
    and "rewrite_loop env i ((wb, cb) # rest) st j d = (r, j', d', bs')"
  shows "(ok ws \<longrightarrow> (\<exists>j2 rest3. rewrite_loop env (Suc i) rest ws j2 d = (r, j', d', rest3) \<and>
                       bs' = (wb, cb1) # rest3)) \<and>
         (IsBusy ws \<longrightarrow> (\<exists>j2 rest3.
             rewrite_loop env (Suc i) rest ws j2
               (dropped_add (file_number (cb_new_blob_index cb))
                  (size' (blob_handle (cb_new_blob_index cb)))
                  (order' (blob_handle (cb_new_blob_index cb))) d) = (r, j', d', rest3) \<and>
             bs' = (wb, cb1) # rest3)) \<and>
         (\<not> ok ws \<and> \<not> IsBusy ws \<longrightarrow> r = ws \<and> d' = d)"
proof (intro conjI impI)
  assume "ok ws"
  from assms(4) [unfolded rewrite_loop_ok [OF assms(1-3) this]]
  show "\<exists>j2 rest3. rewrite_loop env (Suc i) rest ws j2 d = (r, j', d', rest3) \<and>
                       bs' = (wb, cb1) # rest3"
    by (auto split: prod.splits)
next
  assume "IsBusy ws"
  from assms(4) [unfolded rewrite_loop_busy [OF assms(1-3) this]]
  show "\<exists>j2 rest3.
             rewrite_loop env (Suc i) rest ws j2
               (dropped_add (file_number (cb_new_blob_index cb))
                  (size' (blob_handle (cb_new_blob_index cb)))
                  (order' (blob_handle (cb_new_blob_index cb))) d) = (r, j', d', rest3) \<and>
             bs' = (wb, cb1) # rest3"
    by (auto split: prod.splits)
next
  assume a: "\<not> ok ws \<and> \<not> IsBusy ws"
  then have "\<not> ok ws" "\<not> IsBusy ws" by auto
  from assms(4) [unfolded rewrite_loop_error [OF assms(1-3) this]]
  show "r = ws" "d' = d" by auto
qed

lemma rewrite_loop_keeps:
  "rewrite_loop env i bs st j d = (r, j', d', bs') \<Longrightarrow>
   (fn, b, os) \<in> set d \<Longrightarrow> ord \<in> set os \<Longrightarrow>
   \<exists>b' os'. (fn, b', os') \<in> set d' \<and> ord \<in> set os'"
proof (induction bs arbitrary: i st j d r j' d' bs' b os)
  case Nil
  then show ?case by auto
next
  case (Cons p rest)
  obtain wb cb where p: "p = (wb, cb)" by (cases p) auto
  show ?case
  proof (cases "IsDropped_rewrite env i \<or> IsShutingDown_rewrite env i")
    case True
    with Cons.prems p show ?thesis by (auto split: if_splits)
  next
    case False
    obtain ws cb1 es where w: "WriteWithCallback env i wb cb = (ws, cb1, es)"
      by (cases "WriteWithCallback env i wb cb") auto
    from False have nd: "\<not> IsDropped_rewrite env i" "\<not> IsShutingDown_rewrite env i" by auto
    note st = rewrite_loop_step [OF nd w Cons.prems(1) [unfolded p]]
    consider (okc) "ok ws" | (busy) "IsBusy ws" | (err) "\<not> ok ws \<and> \<not> IsBusy ws" by blast
    then show ?thesis
    proof cases
      case okc
      with st obtain j2 rest3 where
        "rewrite_loop env (Suc i) rest ws j2 d = (r, j', d', rest3)" by auto
      from Cons.IH [OF this Cons.prems(2,3)] show ?thesis .
    next
      case busy
      let ?d1 = "dropped_add (file_number (cb_new_blob_index cb))
                  (size' (blob_handle (cb_new_blob_index cb)))
                  (order' (blob_handle (cb_new_blob_index cb))) d"
      from busy st obtain j2 rest3 where
        rec: "rewrite_loop env (Suc i) rest ws j2 ?d1 = (r, j', d', rest3)" by auto
      from dropped_add_keeps [OF Cons.prems(2,3)] obtain b1 os1 where
        "(fn, b1, os1) \<in> set ?d1" "ord \<in> set os1" by blast
      from Cons.IH [OF rec this] show ?thesis .
    next
      case err
      with st Cons.prems(2,3) show ?thesis by auto
    qed
  qed
qed

lemma rewrite_loop_distinct:
  "rewrite_loop env i bs st j d = (r, j', d', bs') \<Longrightarrow> distinct (map fst d) \<Longrightarrow>
   distinct (map fst d')"
proof (induction bs arbitrary: i st j d r j' d' bs')
  case Nil
  then show ?case by auto
next
  case (Cons p rest)
  obtain wb cb where p: "p = (wb, cb)" by (cases p) auto
  show ?case
  proof (cases "IsDropped_rewrite env i \<or> IsShutingDown_rewrite env i")
    case True
    with Cons.prems p show ?thesis by (auto split: if_splits)
  next
    case False
    obtain ws cb1 es where w: "WriteWithCallback env i wb cb = (ws, cb1, es)"
      by (cases "WriteWithCallback env i wb cb") auto
    from False have nd: "\<not> IsDropped_rewrite env i" "\<not> IsShutingDown_rewrite env i" by auto
    note st = rewrite_loop_step [OF nd w Cons.prems(1) [unfolded p]]
    consider (okc) "ok ws" | (busy) "IsBusy ws" | (err) "\<not> ok ws \<and> \<not> IsBusy ws" by blast
    then show ?thesis
    proof cases
      case okc
      with st obtain j2 rest3 where
        "rewrite_loop env (Suc i) rest ws j2 d = (r, j', d', rest3)" by auto
      from Cons.IH [OF this Cons.prems(2)] show ?thesis .
    next
      case busy
      with st obtain j2 rest3 d1 where
        rec: "rewrite_loop env (Suc i) rest ws j2 d1 = (r, j', d', rest3)"
        and "d1 = dropped_add (file_number (cb_new_blob_index cb))
                  (size' (blob_handle (cb_new_blob_index cb)))
                  (order' (blob_handle (cb_new_blob_index cb))) d" by auto
      with Cons.IH [OF rec] dropped_add_distinct [OF Cons.prems(2)] show ?thesis by simp
    next
      case err
      with st Cons.prems(2) show ?thesis by auto
    qed
  qed
qed


text \<open>
  The loop gets to the \<open>n\<close>-th batch when nothing stops it at or before that batch.
\<close>

lemma rewrite_loop_records_busy:
  assumes "rewrite_loop env i bs st j d = (r, j', d', bs')" and "n < length bs"
    and "\<And>k. k \<le> n \<Longrightarrow> \<not> IsDropped_rewrite env (i + k) \<and> \<not> IsShutingDown_rewrite env (i + k)"
    and "\<And>k. k < n \<Longrightarrow> ok (fst (WriteWithCallback env (i + k) (fst (bs ! k)) (snd (bs ! k)))) \<or>
                       IsBusy (fst (WriteWithCallback env (i + k) (fst (bs ! k)) (snd (bs ! k))))"
    and "IsBusy (fst (WriteWithCallback env (i + n) (fst (bs ! n)) (snd (bs ! n))))"
  shows "\<exists>b os. (file_number (cb_new_blob_index (snd (bs ! n))), b, os) \<in> set d' \<and>
                order' (blob_handle (cb_new_blob_index (snd (bs ! n)))) \<in> set os"
  using assms
proof (induction bs arbitrary: i n st j d bs')
  case Nil
  then show ?case by simp
next
  case (Cons p rest)
  obtain wb cb where p: "p = (wb, cb)" by (cases p) auto
  obtain ws cb1 es where w: "WriteWithCallback env i wb cb = (ws, cb1, es)"
    by (cases "WriteWithCallback env i wb cb") auto
  from Cons.prems(3) [of 0] have nd: "\<not> IsDropped_rewrite env i" "\<not> IsShutingDown_rewrite env i"
    by auto
  note st = rewrite_loop_step [OF nd w Cons.prems(1) [unfolded p]]
  let ?d1 = "dropped_add (file_number (cb_new_blob_index cb))
               (size' (blob_handle (cb_new_blob_index cb)))
               (order' (blob_handle (cb_new_blob_index cb))) d"
  show ?case
  proof (cases n)
    case 0
    with Cons.prems(5) p w have "IsBusy ws" by simp
    with st obtain j2 rest3 where
      rec: "rewrite_loop env (Suc i) rest ws j2 ?d1 = (r, j', d', rest3)" by auto
    from dropped_add_records [of "file_number (cb_new_blob_index cb)"
        "size' (blob_handle (cb_new_blob_index cb))"
        "order' (blob_handle (cb_new_blob_index cb))" d]
    obtain b os where "(file_number (cb_new_blob_index cb), b, os) \<in> set ?d1"
      "order' (blob_handle (cb_new_blob_index cb)) \<in> set os" by blast
    from rewrite_loop_keeps [OF rec this] 0 p show ?thesis by simp
  next
    case (Suc m)
    from Cons.prems(4) [of 0] Suc p w have "ok ws \<or> IsBusy ws" by simp
    with st obtain j2 d2 rest3 where
      rec: "rewrite_loop env (Suc i) rest ws j2 d2 = (r, j', d', rest3)" by auto
    have "\<exists>b os. (file_number (cb_new_blob_index (snd (rest ! m))), b, os) \<in> set d' \<and>
                order' (blob_handle (cb_new_blob_index (snd (rest ! m)))) \<in> set os"
    proof (rule Cons.IH [OF rec])
      show "m < length rest" using Cons.prems(2) Suc by simp
      show "\<not> IsDropped_rewrite env (Suc i + k) \<and> \<not> IsShutingDown_rewrite env (Suc i + k)"
        if "k \<le> m" for k
        using Cons.prems(3) [of "Suc k"] that Suc by simp
      show "ok (fst (WriteWithCallback env (Suc i + k) (fst (rest ! k)) (snd (rest ! k)))) \<or>
            IsBusy (fst (WriteWithCallback env (Suc i + k) (fst (rest ! k)) (snd (rest ! k))))"
        if "k < m" for k
        using Cons.prems(4) [of "Suc k"] that Suc by simp
      show "IsBusy (fst (WriteWithCallback env (Suc i + m) (fst (rest ! m)) (snd (rest ! m))))"
        using Cons.prems(5) Suc by simp
    qed
    with Suc show ?thesis by simp
  qed
qed

lemma apply_dropped_other:
  "fn \<notin> fst ` set d \<Longrightarrow> blob_storage (apply_dropped env d j) fn = blob_storage j fn"
  by (induction env d j rule: apply_dropped.induct)
     (auto simp: Let_def emit_def split: option.splits)

lemma apply_dropped_file:
  assumes "GetBlobStorage_found env" and "distinct (map fst d)"
    and "(fn, b, os) \<in> set d" and "blob_storage j fn = Some f"
  shows "blob_storage (apply_dropped env d j) fn =
           Some (UpdateLiveDataSize (- b) (fold (\<lambda>ord. SetLiveDataBitset ord False) os f)) \<and>
         (\<exists>es. trace (apply_dropped env d j) = trace j @ es \<and> list_all is_adjust es \<and>
            set (map (EvSetLiveDataBitset fn) os) \<subseteq> set es \<and>
            EvUpdateLiveDataSize fn (- b) \<in> set es \<and> EvComputeGCScore \<in> set es)"
  using assms
proof (induction env d j rule: apply_dropped.induct)
  case (1 env j)
  then show ?case by simp
next
  case (2 env n bytes ords d j)
  show ?case
  proof (cases "n = fn")
    case True
    with "2.prems" have eq: "bytes = b" "ords = os" and nin: "fn \<notin> fst ` set d"
      by (auto simp: image_iff)
    let ?f2 = "UpdateLiveDataSize (- b) (fold (\<lambda>ord. SetLiveDataBitset ord False) os f)"
    let ?es = "map (EvSetLiveDataBitset fn) os @ [EvUpdateLiveDataSize fn (- b), EvComputeGCScore]"
    let ?j2 = "emit ?es (j\<lparr>blob_storage := (blob_storage j)(fn \<mapsto> ?f2)\<rparr>)"
    have step: "apply_dropped env ((n, bytes, ords) # d) j = apply_dropped env d ?j2"
      using True eq "2.prems"(1,4) by (simp add: Let_def)
    from apply_dropped_events [of env d ?j2] obtain es where
      es: "trace (apply_dropped env d ?j2) = trace ?j2 @ es" "list_all is_adjust es" by auto
    have "list_all is_adjust ?es" by (auto simp: list_all_iff)
    with es step apply_dropped_other [OF nin, of env ?j2] show ?thesis
      by (intro conjI exI [of _ "?es @ es"]) (auto simp: emit_def)
  next
    case False
    with "2.prems" have mem: "(fn, b, os) \<in> set d" and dd: "distinct (map fst d)" by auto
    show ?thesis
    proof (cases "blob_storage j n")
      case None
      with "2.prems"(1) have "apply_dropped env ((n, bytes, ords) # d) j = apply_dropped env d j"
        by simp
      with "2.IH"(1) [OF "2.prems"(1) None "2.prems"(1) dd mem "2.prems"(4)] show ?thesis
        by simp
    next
      case (Some g)
      let ?g2 = "UpdateLiveDataSize (- bytes) (fold (\<lambda>ord. SetLiveDataBitset ord False) ords g)"
      let ?es = "map (EvSetLiveDataBitset n) ords @
                   [EvUpdateLiveDataSize n (- bytes), EvComputeGCScore]"
      let ?j2 = "emit ?es (j\<lparr>blob_storage := (blob_storage j)(n \<mapsto> ?g2)\<rparr>)"
      have step: "apply_dropped env ((n, bytes, ords) # d) j = apply_dropped env d ?j2"
        using Some "2.prems"(1) by (simp add: Let_def)
      have st: "blob_storage ?j2 fn = Some f"
        using False "2.prems"(4) by (simp add: emit_def)
      from "2.IH"(2) [OF "2.prems"(1) Some refl refl refl refl "2.prems"(1) dd mem st]
      obtain es where
        "blob_storage (apply_dropped env d ?j2) fn =
           Some (UpdateLiveDataSize (- b) (fold (\<lambda>ord. SetLiveDataBitset ord False) os f))"
        "trace (apply_dropped env d ?j2) = trace ?j2 @ es" "list_all is_adjust es"
        "set (map (EvSetLiveDataBitset fn) os) \<subseteq> set es"
        "EvUpdateLiveDataSize fn (- b) \<in> set es" "EvComputeGCScore \<in> set es"
        by blast
      moreover have "list_all is_adjust ?es" by (auto simp: list_all_iff)
      ultimately show ?thesis
        unfolding step
        by (intro conjI exI [of _ "?es @ es"]) (auto simp: emit_def)
    qed
  qed
qed


lemma rewrite_loop_all_busy:
  assumes "rewrite_loop env i bs st j d = (r, j', d', bs')"
    and "\<And>k. k < length bs \<Longrightarrow>
           \<not> IsDropped_rewrite env (i + k) \<and> \<not> IsShutingDown_rewrite env (i + k) \<and>
           IsBusy (fst (WriteWithCallback env (i + k) (fst (bs ! k)) (snd (bs ! k))))"
  shows "(bs = [] \<and> r = st) \<or> IsBusy r"
  using assms
proof (induction bs arbitrary: i st j d bs')
  case Nil
  then show ?case by simp
next
  case (Cons p rest)
  obtain wb cb where p: "p = (wb, cb)" by (cases p) auto
  obtain ws cb1 es where w: "WriteWithCallback env i wb cb = (ws, cb1, es)"
    by (cases "WriteWithCallback env i wb cb") auto
  from Cons.prems(2) [of 0] p w have
    nd: "\<not> IsDropped_rewrite env i" "\<not> IsShutingDown_rewrite env i" and b: "IsBusy ws"
    by auto
  from rewrite_loop_step [OF nd w Cons.prems(1) [unfolded p]] b obtain j2 d2 rest3 where
    rec: "rewrite_loop env (Suc i) rest ws j2 d2 = (r, j', d', rest3)" by auto
  have "(rest = [] \<and> r = ws) \<or> IsBusy r"
  proof (rule Cons.IH [OF rec])
    show "\<not> IsDropped_rewrite env (Suc i + k) \<and> \<not> IsShutingDown_rewrite env (Suc i + k) \<and>
          IsBusy (fst (WriteWithCallback env (Suc i + k) (fst (rest ! k)) (snd (rest ! k))))"
      if "k < length rest" for k
      using Cons.prems(2) [of "Suc k"] that by simp
  qed
  with b show ?case by auto
qed

lemma RewriteValidKeyToLSM_status:
  assumes "RewriteValidKeyToLSM env j = (st, j')"
    and "rewrite_loop env 0 (rewrite_batches j) OK j [] = (ls, j1, d, bs1)"
  shows "st = (if ls = OK \<or> IsBusy ls then FlushWAL env else ls)"
proof -
  have "IsBusy ls \<Longrightarrow> ls \<noteq> OK" by (cases ls) auto
  with assms show ?thesis
    by (auto simp: RewriteValidKeyToLSM_def Let_def ok_def split: if_splits)
qed

lemma clear_bits_bitset:
  "m_live_bitset (fold (\<lambda>ord. SetLiveDataBitset ord False) os f) =
   fold (\<lambda>ord bs. bs[unat ord := False]) os (m_live_bitset f)"
  by (induction os arbitrary: f) (auto simp: SetLiveDataBitset_def)

lemma clear_bits_size:
  "m_live_data_size (fold (\<lambda>ord. SetLiveDataBitset ord False) os f) = m_live_data_size f"
  by (induction os arbitrary: f) (auto simp: SetLiveDataBitset_def)

lemma fold_clear_length:
  "length (fold (\<lambda>ord bs. bs[unat ord := False]) os bs) = length bs"
  by (induction os arbitrary: bs) auto

lemma fold_clear_stays:
  "k < length bs \<Longrightarrow> \<not> bs ! k \<Longrightarrow> \<not> fold (\<lambda>ord bs. bs[unat ord := False]) os bs ! k"
proof (induction os arbitrary: bs)
  case Nil
  then show ?case by simp
next
  case (Cons a os)
  have "\<not> fold (\<lambda>ord bs. bs[unat ord := False]) os (bs[unat a := False]) ! k"
    by (rule Cons.IH)
       (use Cons.prems in \<open>cases "unat a < length bs"; auto simp: nth_list_update\<close>)+
  then show ?case by simp
qed

lemma fold_clear_clears:
  "ord \<in> set os \<Longrightarrow> unat ord < length bs \<Longrightarrow>
   \<not> fold (\<lambda>ord bs. bs[unat ord := False]) os bs ! unat ord"
proof (induction os arbitrary: bs)
  case Nil
  then show ?case by simp
next
  case (Cons a os)
  show ?case
  proof (cases "a = ord")
    case True
    with Cons.prems show ?thesis
      using fold_clear_stays [of "unat ord" "bs[unat ord := False]" os] by simp
  next
    case False
    with Cons show ?thesis by simp
  qed
qed

lemma dropped_file_cleared:
  assumes "ord \<in> set os" and "unat ord < length (m_live_bitset f)"
  shows "\<not> IsLiveData (UpdateLiveDataSize x (fold (\<lambda>ord. SetLiveDataBitset ord False) os f)) ord"
  using fold_clear_clears [OF assms(1), of "m_live_bitset f"] assms(2)
  by (simp add: IsLiveData_def UpdateLiveDataSize_def clear_bits_bitset fold_clear_length)

lemma RewriteValidKeyToLSM_adjusts:
  assumes "RewriteValidKeyToLSM env j = (st, j')"
    and "rewrite_loop env 0 (rewrite_batches j) OK j [] = (ls, j1, d, bs1)"
    and "GetBlobStorage_found env" and "(fn, b, os) \<in> set d" and "blob_storage j fn = Some f"
  shows "blob_storage j' fn =
           Some (UpdateLiveDataSize (- b) (fold (\<lambda>ord. SetLiveDataBitset ord False) os f)) \<and>
         (\<exists>ws adj fl. trace j' = trace j @ ws @ EvMutexLock # adj @ EvMutexUnlock # fl \<and>
            list_all (\<lambda>e. \<not> is_adjust e) (ws @ fl) \<and> list_all is_adjust adj \<and>
            set (map (EvSetLiveDataBitset fn) os) \<subseteq> set adj \<and>
            EvUpdateLiveDataSize fn (- b) \<in> set adj \<and> EvComputeGCScore \<in> set adj)"
proof -
  from rewrite_loop_events [OF assms(2)] obtain ws where
    ws: "trace j1 = trace j @ ws" "blob_storage j1 = blob_storage j"
      "list_all (\<lambda>e. (\<exists>k. e = EvGetImpl k) \<or> (\<exists>wb. e = EvWrite wb)) ws"
    by auto
  from ws(3) have nws: "list_all (\<lambda>e. \<not> is_adjust e) ws" by (auto simp: list_all_iff)
  from rewrite_loop_distinct [OF assms(2)] have dd: "distinct (map fst d)" by simp
  let ?j2 = "emit [EvMutexLock] (j1\<lparr>rewrite_batches := bs1\<rparr>)"
  have "blob_storage ?j2 fn = Some f" using ws(2) assms(5) by (simp add: emit_def)
  from apply_dropped_file [OF assms(3) dd assms(4) this] obtain adj where
    adj: "blob_storage (apply_dropped env d ?j2) fn =
           Some (UpdateLiveDataSize (- b) (fold (\<lambda>ord. SetLiveDataBitset ord False) os f))"
      "trace (apply_dropped env d ?j2) = trace ?j2 @ adj" "list_all is_adjust adj"
      "set (map (EvSetLiveDataBitset fn) os) \<subseteq> set adj"
      "EvUpdateLiveDataSize fn (- b) \<in> set adj" "EvComputeGCScore \<in> set adj"
    by blast
  from assms(1,2) obtain fl where
    fl: "trace j' = trace (apply_dropped env d ?j2) @ EvMutexUnlock # fl"
      "fl = [] \<or> fl = [EvFlushWAL]"
      "blob_storage j' = blob_storage (apply_dropped env d ?j2)"
    by (auto simp: RewriteValidKeyToLSM_def Let_def emit_def split: if_splits)
  from fl(2) have nfl: "list_all (\<lambda>e. \<not> is_adjust e) fl" by auto
  have tr: "trace j' = trace j @ ws @ EvMutexLock # adj @ EvMutexUnlock # fl"
    using fl(1) adj(2) ws(1) by (simp add: emit_def)
  from tr nws nfl adj fl(3) show ?thesis
    by (intro conjI exI [of _ ws] exI [of _ adj] exI [of _ fl]) auto
qed

lemma Finish_all_busy:
  assumes "InstallOutputBlobFiles env (emit [EvMutexUnlock] j0) = Inr (OK, j)"
    and "\<not> rewrite_shadow opts" and "FlushWAL env = OK" and "\<not> IsDropped_final env"
    and "\<And>k. k < length (rewrite_batches j) \<Longrightarrow>
           \<not> IsDropped_rewrite env k \<and> \<not> IsShutingDown_rewrite env k \<and>
           IsBusy (fst (WriteWithCallback env k (fst (rewrite_batches j ! k))
                          (snd (rewrite_batches j ! k))))"
  shows "\<exists>jz. Finish env opts inputs j0 =
           Inr (LogAndApply env (map m_file_number (filter (\<lambda>f. \<not> is_obsolete f) inputs)), jz) \<and>
           last (trace jz) =
             EvLogAndApply (map m_file_number (filter (\<lambda>f. \<not> is_obsolete f) inputs))
               (GetLatestSequenceNumber env)"
proof -
  obtain st j' where rv: "RewriteValidKeyToLSM env j = (st, j')"
    by (cases "RewriteValidKeyToLSM env j") auto
  obtain ls j1 d bs1 where
    lp: "rewrite_loop env 0 (rewrite_batches j) OK j [] = (ls, j1, d, bs1)"
    by (cases "rewrite_loop env 0 (rewrite_batches j) OK j []") auto
  have "(rewrite_batches j = [] \<and> ls = OK) \<or> IsBusy ls"
    by (rule rewrite_loop_all_busy [OF lp]) (use assms(5) in simp)
  with RewriteValidKeyToLSM_status [OF rv lp] assms(3) have "st = OK" by auto
  with assms(1,2,4) rv show ?thesis
    by (simp add: Finish_def ok_def Let_def DeleteInputBlobFiles_def emit_def upd_metrics_def)
qed


lemma apply_dropped_no_storage:
  "\<not> GetBlobStorage_found env \<Longrightarrow> apply_dropped env d j = j"
  by (induction d arbitrary: j) auto

lemma apply_dropped_absent:
  "blob_storage j fn = None \<Longrightarrow> blob_storage (apply_dropped env d j) fn = None"
proof (induction d arbitrary: j)
  case Nil
  then show ?case by simp
next
  case (Cons a d)
  obtain n bytes ords where a: "a = (n, bytes, ords)" by (cases a)
  show ?case
  proof (cases "GetBlobStorage_found env")
    case False
    with Cons.prems show ?thesis by (simp add: apply_dropped_no_storage)
  next
    case True
    show ?thesis
    proof (cases "blob_storage j n")
      case None
      with True a Cons.IH [OF Cons.prems] show ?thesis by simp
    next
      case (Some g)
      with Cons.prems have ne: "n \<noteq> fn" by auto
      let ?j2 = "emit (map (EvSetLiveDataBitset n) ords @
                       [EvUpdateLiveDataSize n (- bytes), EvComputeGCScore])
                   (j\<lparr>blob_storage := (blob_storage j)(n \<mapsto>
                        UpdateLiveDataSize (- bytes)
                          (fold (\<lambda>ord. SetLiveDataBitset ord False) ords g))\<rparr>)"
      from ne Cons.prems have "blob_storage ?j2 fn = None" by (simp add: emit_def)
      from Cons.IH [OF this] True a Some show ?thesis by (simp add: Let_def)
    qed
  qed
qed


lemma replicate_two: "replicate 2 x = [x, x]"
  by (simp add: numeral_2_eq_2)

text \<open>
  C5, as the code has it. Let \<^verbatim>\<open>RewriteValidKeyToLSM\<close> run on job \<open>j\<close> and let \<open>d\<close> be the
  \<^verbatim>\<open>dropped\<close> accumulator at the end of its loop.
  (1) An iteration whose write returns Busy counts one key and the size of the old blob
  record as overwritten at the callback, adds the new record's size and order to the
  accumulator under the new record's file number, and goes on with the next batch.
  (2) So every batch that the loop gets to and whose write returns Busy is found in \<open>d\<close>
  at the end.
  (3) For every file of \<open>d\<close> that the column family's blob storage holds, the job then,
  between taking and releasing the engine mutex, clears the liveness bits at the
  recorded orders, subtracts the dropped bytes from \<^verbatim>\<open>live_data_size\<close> and recomputes the
  GC score; all such bookkeeping lies between that lock and unlock. A file that the
  storage does not hold (or a missing storage) is passed over.
  (4) A Busy status at the end of the loop is replaced by OK, so the function returns
  the status of the WAL sync; this is so in particular when every write returns Busy.
  (5) Then, when the install before it and the WAL sync succeed and the column family is
  not dropped, \<^verbatim>\<open>Finish\<close> goes on to the manifest edit that marks the input files
  obsolete and returns its status.
\<close>

theorem busy_rewrites_are_dropped:
  assumes "RewriteValidKeyToLSM env j = (st, j')"
    and "rewrite_loop env 0 (rewrite_batches j) OK j [] = (ls, j1, d, bs1)"
  shows
    "(\<not> IsDropped_rewrite env i \<and> \<not> IsShutingDown_rewrite env i \<and>
      WriteWithCallback env i wb cb = (Busy m, cb1, es) \<longrightarrow>
        rewrite_loop env i ((wb, cb) # rest) st0 j0 d0 =
          (case rewrite_loop env (Suc i) rest (Busy m)
                  (upd_metrics (\<lambda>m. m\<lparr>gc_bytes_read_callback :=
                                        gc_bytes_read_callback m + cb_read_bytes cb1\<rparr>)
                     (upd_metrics (\<lambda>m. m\<lparr>gc_num_keys_overwritten_callback :=
                                           gc_num_keys_overwritten_callback m + 1,
                                         gc_bytes_overwritten_callback :=
                                           gc_bytes_overwritten_callback m +
                                           size' (blob_handle (cb_blob_index cb))\<rparr>)
                        (emit es j0)))
                  (dropped_add (file_number (cb_new_blob_index cb))
                     (size' (blob_handle (cb_new_blob_index cb)))
                     (order' (blob_handle (cb_new_blob_index cb))) d0) of
             (r, j3, d3, rest3) \<Rightarrow> (r, j3, d3, (wb, cb1) # rest3))) \<and>
     (n < length (rewrite_batches j) \<and>
      (\<forall>k \<le> n. \<not> IsDropped_rewrite env k \<and> \<not> IsShutingDown_rewrite env k) \<and>
      (\<forall>k < n. ok (fst (WriteWithCallback env k (fst (rewrite_batches j ! k))
                          (snd (rewrite_batches j ! k)))) \<or>
               IsBusy (fst (WriteWithCallback env k (fst (rewrite_batches j ! k))
                              (snd (rewrite_batches j ! k))))) \<and>
      IsBusy (fst (WriteWithCallback env n (fst (rewrite_batches j ! n))
                     (snd (rewrite_batches j ! n)))) \<longrightarrow>
        (\<exists>b os. (file_number (cb_new_blob_index (snd (rewrite_batches j ! n))), b, os) \<in> set d \<and>
                order' (blob_handle (cb_new_blob_index (snd (rewrite_batches j ! n)))) \<in> set os)) \<and>
     (GetBlobStorage_found env \<and> (fn, b, os) \<in> set d \<and> blob_storage j fn = Some f \<longrightarrow>
        (\<exists>f'. blob_storage j' fn = Some f' \<and>
              m_live_data_size f' = m_live_data_size f - b \<and>
              (\<forall>ord \<in> set os. unat ord < length (m_live_bitset f) \<longrightarrow> \<not> IsLiveData f' ord)) \<and>
        (\<exists>ws adj fl. trace j' = trace j @ ws @ EvMutexLock # adj @ EvMutexUnlock # fl \<and>
            list_all (\<lambda>e. \<not> is_adjust e) (ws @ fl) \<and> list_all is_adjust adj \<and>
            set (map (EvSetLiveDataBitset fn) os) \<subseteq> set adj \<and>
            EvUpdateLiveDataSize fn (- b) \<in> set adj \<and> EvComputeGCScore \<in> set adj)) \<and>
     ((fn, b, os) \<in> set d \<and> (\<not> GetBlobStorage_found env \<or> blob_storage j fn = None) \<longrightarrow>
        blob_storage j' fn = blob_storage j fn) \<and>
     (IsBusy ls \<longrightarrow> st = FlushWAL env) \<and>
     ((\<forall>k < length (rewrite_batches j).
          \<not> IsDropped_rewrite env k \<and> \<not> IsShutingDown_rewrite env k \<and>
          IsBusy (fst (WriteWithCallback env k (fst (rewrite_batches j ! k))
                         (snd (rewrite_batches j ! k))))) \<longrightarrow>
        st = FlushWAL env \<and>
        (InstallOutputBlobFiles env (emit [EvMutexUnlock] jf) = Inr (OK, j) \<and>
         \<not> rewrite_shadow opts \<and> FlushWAL env = OK \<and> \<not> IsDropped_final env \<longrightarrow>
           (\<exists>jz. Finish env opts inputs jf =
                   Inr (LogAndApply env
                          (map m_file_number (filter (\<lambda>f. \<not> is_obsolete f) inputs)), jz) \<and>
                 last (trace jz) =
                   EvLogAndApply (map m_file_number (filter (\<lambda>f. \<not> is_obsolete f) inputs))
                     (GetLatestSequenceNumber env))))"
proof (intro conjI impI)
  assume "\<not> IsDropped_rewrite env i \<and> \<not> IsShutingDown_rewrite env i \<and>
      WriteWithCallback env i wb cb = (Busy m, cb1, es)"
  then show "rewrite_loop env i ((wb, cb) # rest) st0 j0 d0 =
          (case rewrite_loop env (Suc i) rest (Busy m)
                  (upd_metrics (\<lambda>m. m\<lparr>gc_bytes_read_callback :=
                                        gc_bytes_read_callback m + cb_read_bytes cb1\<rparr>)
                     (upd_metrics (\<lambda>m. m\<lparr>gc_num_keys_overwritten_callback :=
                                           gc_num_keys_overwritten_callback m + 1,
                                         gc_bytes_overwritten_callback :=
                                           gc_bytes_overwritten_callback m +
                                           size' (blob_handle (cb_blob_index cb))\<rparr>)
                        (emit es j0)))
                  (dropped_add (file_number (cb_new_blob_index cb))
                     (size' (blob_handle (cb_new_blob_index cb)))
                     (order' (blob_handle (cb_new_blob_index cb))) d0) of
             (r, j3, d3, rest3) \<Rightarrow> (r, j3, d3, (wb, cb1) # rest3))"
    using rewrite_loop_busy [of env i wb cb "Busy m" cb1 es rest st0 j0 d0] by simp
next
  assume a: "n < length (rewrite_batches j) \<and>
      (\<forall>k \<le> n. \<not> IsDropped_rewrite env k \<and> \<not> IsShutingDown_rewrite env k) \<and>
      (\<forall>k < n. ok (fst (WriteWithCallback env k (fst (rewrite_batches j ! k))
                          (snd (rewrite_batches j ! k)))) \<or>
               IsBusy (fst (WriteWithCallback env k (fst (rewrite_batches j ! k))
                              (snd (rewrite_batches j ! k))))) \<and>
      IsBusy (fst (WriteWithCallback env n (fst (rewrite_batches j ! n))
                     (snd (rewrite_batches j ! n))))"
  show "\<exists>b os. (file_number (cb_new_blob_index (snd (rewrite_batches j ! n))), b, os) \<in> set d \<and>
                order' (blob_handle (cb_new_blob_index (snd (rewrite_batches j ! n)))) \<in> set os"
    by (rule rewrite_loop_records_busy [OF assms(2)]) (use a in auto)
next
  assume a: "GetBlobStorage_found env \<and> (fn, b, os) \<in> set d \<and> blob_storage j fn = Some f"
  then have g: "GetBlobStorage_found env" and m: "(fn, b, os) \<in> set d"
    and s: "blob_storage j fn = Some f" by auto
  note r = RewriteValidKeyToLSM_adjusts [OF assms g m s]
  let ?f' = "UpdateLiveDataSize (- b) (fold (\<lambda>ord. SetLiveDataBitset ord False) os f)"
  have "m_live_data_size ?f' = m_live_data_size f - b"
    by (simp add: UpdateLiveDataSize_def clear_bits_size)
  moreover have "\<forall>ord \<in> set os. unat ord < length (m_live_bitset f) \<longrightarrow> \<not> IsLiveData ?f' ord"
    using dropped_file_cleared by blast
  ultimately show "\<exists>f'. blob_storage j' fn = Some f' \<and>
              m_live_data_size f' = m_live_data_size f - b \<and>
              (\<forall>ord \<in> set os. unat ord < length (m_live_bitset f) \<longrightarrow> \<not> IsLiveData f' ord)"
    using r by blast
  from r show "\<exists>ws adj fl. trace j' = trace j @ ws @ EvMutexLock # adj @ EvMutexUnlock # fl \<and>
            list_all (\<lambda>e. \<not> is_adjust e) (ws @ fl) \<and> list_all is_adjust adj \<and>
            set (map (EvSetLiveDataBitset fn) os) \<subseteq> set adj \<and>
            EvUpdateLiveDataSize fn (- b) \<in> set adj \<and> EvComputeGCScore \<in> set adj"
    by blast
next
  assume a: "(fn, b, os) \<in> set d \<and> (\<not> GetBlobStorage_found env \<or> blob_storage j fn = None)"
  have keep: "blob_storage (apply_dropped env d' jx) fn = blob_storage jx fn"
    if "\<not> GetBlobStorage_found env \<or> blob_storage jx fn = None" for d' jx
    using that apply_dropped_no_storage [of env d' jx] apply_dropped_absent [of jx fn env d']
    by auto
  from rewrite_loop_events [OF assms(2)] have "blob_storage j1 = blob_storage j" by simp
  with assms a keep [of "emit [EvMutexLock] (j1\<lparr>rewrite_batches := bs1\<rparr>)" d]
  show "blob_storage j' fn = blob_storage j fn"
    by (auto simp: RewriteValidKeyToLSM_def Let_def emit_def split: if_splits)
next
  assume "IsBusy ls"
  with RewriteValidKeyToLSM_status [OF assms] show "st = FlushWAL env" by simp
next
  assume a: "\<forall>k < length (rewrite_batches j).
          \<not> IsDropped_rewrite env k \<and> \<not> IsShutingDown_rewrite env k \<and>
          IsBusy (fst (WriteWithCallback env k (fst (rewrite_batches j ! k))
                         (snd (rewrite_batches j ! k))))"
  have "(rewrite_batches j = [] \<and> ls = OK) \<or> IsBusy ls"
    by (rule rewrite_loop_all_busy [OF assms(2)]) (use a in simp)
  with RewriteValidKeyToLSM_status [OF assms] show "st = FlushWAL env" by auto
  assume "InstallOutputBlobFiles env (emit [EvMutexUnlock] jf) = Inr (OK, j) \<and>
         \<not> rewrite_shadow opts \<and> FlushWAL env = OK \<and> \<not> IsDropped_final env"
  then show "\<exists>jz. Finish env opts inputs jf =
                   Inr (LogAndApply env
                          (map m_file_number (filter (\<lambda>f. \<not> is_obsolete f) inputs)), jz) \<and>
                 last (trace jz) =
                   EvLogAndApply (map m_file_number (filter (\<lambda>f. \<not> is_obsolete f) inputs))
                     (GetLatestSequenceNumber env)"
    using Finish_all_busy [of env jf j opts inputs] a by simp
qed

theorem busy_rewrites_are_dropped_witness:
  "IsBusy (fst (WriteWithCallback raced_env 0 (fst (rewrite_batches installed_job ! 0))
                  (snd (rewrite_batches installed_job ! 0)))) \<and>
   IsBusy (fst (WriteWithCallback raced_env 1 (fst (rewrite_batches installed_job ! 1))
                  (snd (rewrite_batches installed_job ! 1)))) \<and>
   length (rewrite_batches installed_job) = 2 \<and>
   fst (rewrite_loop raced_env 0 (rewrite_batches installed_job) OK installed_job []) =
     Busy ''key deleted'' \<and>
   fst (snd (snd (rewrite_loop raced_env 0 (rewrite_batches installed_job) OK installed_job []))) =
     [(100, 26, [0, 1])] \<and>
   fst (RewriteValidKeyToLSM raced_env installed_job) = OK \<and>
   gc_num_keys_overwritten_callback (metrics (snd (RewriteValidKeyToLSM raced_env installed_job)))
     = 2 \<and>
   gc_bytes_overwritten_callback (metrics (snd (RewriteValidKeyToLSM raced_env installed_job)))
     = 20 \<and>
   blob_storage installed_job 100 =
     Some \<lparr>m_file_number = 100, m_file_size = 64, m_live_data_size = 64,
           m_live_bitset = [True, True], m_state = kNormalState\<rparr> \<and>
   blob_storage (snd (RewriteValidKeyToLSM raced_env installed_job)) 100 =
     Some \<lparr>m_file_number = 100, m_file_size = 64, m_live_data_size = 38,
           m_live_bitset = [False, False], m_state = kNormalState\<rparr> \<and>
   trace (snd (RewriteValidKeyToLSM raced_env installed_job)) =
     trace installed_job @
     [EvGetImpl ''a'', EvGetImpl ''b'', EvMutexLock,
      EvSetLiveDataBitset 100 0, EvSetLiveDataBitset 100 1,
      EvUpdateLiveDataSize 100 (- 26), EvComputeGCScore, EvMutexUnlock, EvFlushWAL] \<and>
   blob_storage (snd (RewriteValidKeyToLSM (raced_env\<lparr>GetBlobStorage_found := False\<rparr>)
     installed_job)) 100 = blob_storage installed_job 100 \<and>
   fst (projr (Finish raced_env sample_opts two_files scanned_job)) = OK \<and>
   last (trace (snd (projr (Finish raced_env sample_opts two_files scanned_job)))) =
     EvLogAndApply [1, 2] 42"
  using
    busy_rewrites_are_dropped
      [where env = raced_env and j = installed_job
        and st = "fst (RewriteValidKeyToLSM raced_env installed_job)"
        and j' = "snd (RewriteValidKeyToLSM raced_env installed_job)"
        and ls = "fst (rewrite_loop raced_env 0 (rewrite_batches installed_job) OK
                         installed_job [])"
        and ?j1.0 = "fst (snd (rewrite_loop raced_env 0 (rewrite_batches installed_job) OK
                         installed_job []))"
        and d = "fst (snd (snd (rewrite_loop raced_env 0 (rewrite_batches installed_job) OK
                         installed_job [])))"
        and ?bs1.0 = "snd (snd (snd (rewrite_loop raced_env 0 (rewrite_batches installed_job) OK
                         installed_job [])))"
        and i = 0 and wb = "fst (rewrite_batches installed_job ! 0)"
        and cb = "snd (rewrite_batches installed_job ! 0)" and m = "''key deleted''"
        and ?cb1.0 = "fst (snd (WriteWithCallback raced_env 0
                         (fst (rewrite_batches installed_job ! 0))
                         (snd (rewrite_batches installed_job ! 0))))"
        and es = "[EvGetImpl ''a'']" and rest = "tl (rewrite_batches installed_job)"
        and ?st0.0 = OK and ?j0.0 = installed_job and ?d0.0 = "[]"
        and n = 1 and fn = 100 and b = 26 and os = "[0, 1]"
        and f = "\<lparr>m_file_number = 100, m_file_size = 64, m_live_data_size = 64,
                   m_live_bitset = [True, True], m_state = kNormalState\<rparr>"
        and jf = scanned_job and opts = sample_opts and inputs = two_files]
    busy_rewrites_are_dropped
      [where env = "raced_env\<lparr>GetBlobStorage_found := False\<rparr>" and j = installed_job
        and st = "fst (RewriteValidKeyToLSM (raced_env\<lparr>GetBlobStorage_found := False\<rparr>)
                         installed_job)"
        and j' = "snd (RewriteValidKeyToLSM (raced_env\<lparr>GetBlobStorage_found := False\<rparr>)
                         installed_job)"
        and ls = "fst (rewrite_loop (raced_env\<lparr>GetBlobStorage_found := False\<rparr>) 0
                         (rewrite_batches installed_job) OK installed_job [])"
        and ?j1.0 = "fst (snd (rewrite_loop (raced_env\<lparr>GetBlobStorage_found := False\<rparr>) 0
                         (rewrite_batches installed_job) OK installed_job []))"
        and d = "fst (snd (snd (rewrite_loop (raced_env\<lparr>GetBlobStorage_found := False\<rparr>) 0
                         (rewrite_batches installed_job) OK installed_job [])))"
        and ?bs1.0 = "snd (snd (snd (rewrite_loop (raced_env\<lparr>GetBlobStorage_found := False\<rparr>) 0
                         (rewrite_batches installed_job) OK installed_job [])))"
        and fn = 100 and b = 26 and os = "[0, 1]"]
  by (simp add: run_defs finish_defs sample_defs raced_env_def installed_job_def
        replicate_seven replicate_two word_le_nat_alt)

text \<open>
  C5 as stated does not hold for a job that runs in fallback mode. There the queued batch
  writes the value back inline and the callback's new blob index is empty: file number 0,
  size 0, order 0. When its write returns Busy the key is counted and file number 0 is
  entered into the accumulator, but the blob storage holds no file of that number, so
  under the mutex no liveness bit is cleared, no \<^verbatim>\<open>live_data_size\<close> is changed and the GC score
  is not recomputed.
\<close>

theorem busy_fallback_rewrite_adjusts_nothing:
  "IsBusy (fst (WriteWithCallback raced_env 0 (fst (rewrite_batches scanned_job_fallback ! 0))
                  (snd (rewrite_batches scanned_job_fallback ! 0)))) \<and>
   cb_new_blob_index (snd (rewrite_batches scanned_job_fallback ! 0)) = BlobIndex0 \<and>
   fst (snd (snd (rewrite_loop raced_env 0 (rewrite_batches scanned_job_fallback) OK
                    scanned_job_fallback []))) = [(0, 0, [0])] \<and>
   fst (projr (Finish raced_env (sample_opts\<lparr>blob_run_mode := kFallback\<rparr>) two_files
                 scanned_job_fallback)) = OK \<and>
   gc_num_keys_overwritten_callback (metrics (snd (projr
     (Finish raced_env (sample_opts\<lparr>blob_run_mode := kFallback\<rparr>) two_files
        scanned_job_fallback)))) = 2 \<and>
   \<not> list_ex is_adjust (trace (snd (projr
     (Finish raced_env (sample_opts\<lparr>blob_run_mode := kFallback\<rparr>) two_files
        scanned_job_fallback)))) \<and>
   blob_storage (snd (projr
     (Finish raced_env (sample_opts\<lparr>blob_run_mode := kFallback\<rparr>) two_files
        scanned_job_fallback))) = blob_storage scanned_job_fallback"
  by (simp add: run_defs finish_defs sample_defs raced_env_def
        replicate_seven replicate_two word_le_nat_alt)

end
